theory Spec2Isabelle
  imports Main "HOL-Library.Word"
begin

unbundle bit_operations_syntax

section \<open>LTC6811 daisy-chain driver: data model\<close>

text \<open>
  The driver is C++ for a 32-bit microcontroller: \<open>uint8_t\<close> is \<open>8 word\<close>, \<open>uint16_t\<close> is
  \<open>16 word\<close>, and \<open>int\<close> has 32 bits, so that an expression over \<open>uint16_t\<close> operands is
  computed without wrap-around and only truncated when it is stored. Values of type
  \<open>size_t\<close> (sums, counters, cell identities) are natural numbers: none of the operations
  modelled here can take them past \<open>2 ^ 32\<close>.
\<close>

type_synonym u8 = "8 word"
type_synonym u16 = "16 word"

subsection \<open>PEC15\<close>

text \<open>The lookup table \<open>crc15Table\<close> of \<open>LTC6811.h\<close>, entry for entry.\<close>

definition crc15Table :: "u16 list" where
  "crc15Table = [
    0x0000, 0xc599, 0xceab, 0x0b32, 0xd8cf, 0x1d56, 0x1664, 0xd3fd, 0xf407, 0x319e, 0x3aac, 0xff35, 0x2cc8, 0xe951, 0xe263, 0x27fa,
    0xad97, 0x680e, 0x633c, 0xa6a5, 0x7558, 0xb0c1, 0xbbf3, 0x7e6a, 0x5990, 0x9c09, 0x973b, 0x52a2, 0x815f, 0x44c6, 0x4ff4, 0x8a6d,
    0x5b2e, 0x9eb7, 0x9585, 0x501c, 0x83e1, 0x4678, 0x4d4a, 0x88d3, 0xaf29, 0x6ab0, 0x6182, 0xa41b, 0x77e6, 0xb27f, 0xb94d, 0x7cd4,
    0xf6b9, 0x3320, 0x3812, 0xfd8b, 0x2e76, 0xebef, 0xe0dd, 0x2544, 0x02be, 0xc727, 0xcc15, 0x098c, 0xda71, 0x1fe8, 0x14da, 0xd143,
    0xf3c5, 0x365c, 0x3d6e, 0xf8f7, 0x2b0a, 0xee93, 0xe5a1, 0x2038, 0x07c2, 0xc25b, 0xc969, 0x0cf0, 0xdf0d, 0x1a94, 0x11a6, 0xd43f,
    0x5e52, 0x9bcb, 0x90f9, 0x5560, 0x869d, 0x4304, 0x4836, 0x8daf, 0xaa55, 0x6fcc, 0x64fe, 0xa167, 0x729a, 0xb703, 0xbc31, 0x79a8,
    0xa8eb, 0x6d72, 0x6640, 0xa3d9, 0x7024, 0xb5bd, 0xbe8f, 0x7b16, 0x5cec, 0x9975, 0x9247, 0x57de, 0x8423, 0x41ba, 0x4a88, 0x8f11,
    0x057c, 0xc0e5, 0xcbd7, 0x0e4e, 0xddb3, 0x182a, 0x1318, 0xd681, 0xf17b, 0x34e2, 0x3fd0, 0xfa49, 0x29b4, 0xec2d, 0xe71f, 0x2286,
    0xa213, 0x678a, 0x6cb8, 0xa921, 0x7adc, 0xbf45, 0xb477, 0x71ee, 0x5614, 0x938d, 0x98bf, 0x5d26, 0x8edb, 0x4b42, 0x4070, 0x85e9,
    0x0f84, 0xca1d, 0xc12f, 0x04b6, 0xd74b, 0x12d2, 0x19e0, 0xdc79, 0xfb83, 0x3e1a, 0x3528, 0xf0b1, 0x234c, 0xe6d5, 0xede7, 0x287e,
    0xf93d, 0x3ca4, 0x3796, 0xf20f, 0x21f2, 0xe46b, 0xef59, 0x2ac0, 0x0d3a, 0xc8a3, 0xc391, 0x0608, 0xd5f5, 0x106c, 0x1b5e, 0xdec7,
    0x54aa, 0x9133, 0x9a01, 0x5f98, 0x8c65, 0x49fc, 0x42ce, 0x8757, 0xa0ad, 0x6534, 0x6e06, 0xab9f, 0x7862, 0xbdfb, 0xb6c9, 0x7350,
    0x51d6, 0x944f, 0x9f7d, 0x5ae4, 0x8919, 0x4c80, 0x47b2, 0x822b, 0xa5d1, 0x6048, 0x6b7a, 0xaee3, 0x7d1e, 0xb887, 0xb3b5, 0x762c,
    0xfc41, 0x39d8, 0x32ea, 0xf773, 0x248e, 0xe117, 0xea25, 0x2fbc, 0x0846, 0xcddf, 0xc6ed, 0x0374, 0xd089, 0x1510, 0x1e22, 0xdbbb,
    0x0af8, 0xcf61, 0xc453, 0x01ca, 0xd237, 0x17ae, 0x1c9c, 0xd905, 0xfeff, 0x3b66, 0x3054, 0xf5cd, 0x2630, 0xe3a9, 0xe89b, 0x2d02,
    0xa76f, 0x62f6, 0x69c4, 0xac5d, 0x7fa0, 0xba39, 0xb10b, 0x7492, 0x5368, 0x96f1, 0x9dc3, 0x585a, 0x8ba7, 0x4e3e, 0x450c, 0x8095
  ]"

text \<open>
  The loop of \<open>PEC15Calc\<close>:
  \<^verbatim>\<open>for (uint8_t i = 0; i < size; ++i) {
      addr = (PEC >> 7 ^ serialized_data[i]) & 0xFF;
      PEC = PEC << 8 ^ crc15Table[addr];
  }\<close>
  The counter is a \<open>uint8_t\<close> compared with a \<open>size_t\<close>: it wraps from 255 to 0, so the loop
  is not bounded by its syntax and is a partial function, \<open>None\<close> standing for a call that
  does not return. A read past the end of the array is undefined in C++ and has no
  result here either. \<open>addr\<close> is masked with \<open>0xFF\<close> and always inside the table.
\<close>

partial_function (option) PEC15Calc_loop :: "u8 list \<Rightarrow> nat \<Rightarrow> u8 \<Rightarrow> u16 \<Rightarrow> u16 option" where
  "PEC15Calc_loop serialized_data sz i PEC =
     (if unat i < sz then
        (if unat i < length serialized_data then
           (let addr = (drop_bit 7 PEC XOR ucast (serialized_data ! unat i)) AND 0xFF;
                PEC' = push_bit 8 PEC XOR crc15Table ! unat addr
            in PEC15Calc_loop serialized_data sz (i + 1) PEC')
         else None)
      else Some PEC)"

declare PEC15Calc_loop.simps [code]

text \<open>
  \<open>PEC15Calc(data, size)\<close>: the accumulator starts at 16 and the result is the accumulator
  shifted left by one bit. The first argument is the object representation of the
  array (\<open>reinterpret_cast<uint8_t const *>(data.data())\<close>).
\<close>

definition PEC15Calc :: "u8 list \<Rightarrow> nat \<Rightarrow> u16 option" where
  "PEC15Calc serialized_data sz =
     map_option (\<lambda>PEC. push_bit 1 PEC) (PEC15Calc_loop serialized_data sz 0 16)"

text \<open>
  The algorithm as the specification words it (section 4.1): one table step per input
  byte on a 16-bit accumulator that starts at 16, then a shift left by one bit.
\<close>

definition pec15_step :: "u16 \<Rightarrow> u8 \<Rightarrow> u16" where
  "pec15_step accumulator byte =
     (let index = (drop_bit 7 accumulator XOR ucast byte) AND 0xFF
      in push_bit 8 accumulator XOR crc15Table ! unat index)"

definition pec15 :: "u8 list \<Rightarrow> u16" where
  "pec15 bytes = push_bit 1 (foldl pec15_step 16 bytes)"

subsection \<open>Conversion commands\<close>

text \<open>The enumerations of \<open>class LTC6811\<close> with their values.\<close>

datatype Mode = Fast | Normal | Filtered

fun Mode_value :: "Mode \<Rightarrow> u8" where
  "Mode_value Fast = 1"
| "Mode_value Normal = 2"
| "Mode_value Filtered = 3"

datatype CellCh =
  AllCell | OneAndSeven | TwoAndEight | ThreeAndNine | FourAndTen | FiveAndEleven | SixAndTwelve

fun CellCh_value :: "CellCh \<Rightarrow> u8" where
  "CellCh_value AllCell = 0"
| "CellCh_value OneAndSeven = 1"
| "CellCh_value TwoAndEight = 2"
| "CellCh_value ThreeAndNine = 3"
| "CellCh_value FourAndTen = 4"
| "CellCh_value FiveAndEleven = 5"
| "CellCh_value SixAndTwelve = 6"

datatype DCP = Disabled | Enabled

fun DCP_value :: "DCP \<Rightarrow> u8" where
  "DCP_value Disabled = 0"
| "DCP_value Enabled = 1"

text \<open>
  The part of the constructor \<open>LTC6811::LTC6811\<close> that builds the member \<open>ADCV\<close>:
  \<^verbatim>\<open>uint8_t md_bits = (mode & 0x02) >> 1;
  ADCV[0] = 0x02 | md_bits;
  md_bits = (mode & 0x01) << 7;
  ADCV[1] = md_bits | 0x60 | dcp << 4 | cell;
  PEC = PEC15Calc(ADCV, 2);
  ADCV[2] = static_cast<uint8_t>(PEC >> 8);
  ADCV[3] = static_cast<uint8_t>(PEC);\<close>
  The first argument is the content of the array before the constructor body runs (the
  member is not initialised). All operands fit in eight bits and the operations are
  bitwise, so the expressions are computed on \<open>u8\<close>.
\<close>

definition LTC6811_ADCV :: "u8 list \<Rightarrow> Mode \<Rightarrow> DCP \<Rightarrow> CellCh \<Rightarrow> u8 list option" where
  "LTC6811_ADCV ADCV mode dcp cell =
     (let md_bits = drop_bit 1 (Mode_value mode AND 0x02);
          ADCV = ADCV[0 := 0x02 OR md_bits];
          md_bits = push_bit 7 (Mode_value mode AND 0x01);
          ADCV = ADCV[1 := md_bits OR 0x60 OR push_bit 4 (DCP_value dcp) OR CellCh_value cell]
      in case PEC15Calc ADCV 2 of
           None \<Rightarrow> None
         | Some PEC \<Rightarrow> Some (ADCV[2 := ucast (drop_bit 8 PEC), 3 := ucast PEC]))"

text \<open>
  The opcode of the start-cell-voltage-conversion command as the specification words it
  (section 4.2): base \<open>0x0260\<close>, a mode bit \<open>m0\<close> at bit 1 of byte 0, a mode bit \<open>m1\<close> at bit 7
  of byte 1, the discharge-permission flag shifted left by 4 and the channel selector
  in byte 1.
\<close>

definition ADCV_opcode_as_stated :: "bool \<Rightarrow> bool \<Rightarrow> DCP \<Rightarrow> CellCh \<Rightarrow> u8 list" where
  "ADCV_opcode_as_stated m0 m1 dcp cell =
     [0x02 OR push_bit 1 (of_bool m0),
      0x60 OR push_bit 7 (of_bool m1) OR push_bit 4 (DCP_value dcp) OR CellCh_value cell]"

subsection \<open>Registers, register groups and the read transaction\<close>

text \<open>
  \<open>LTC6811Register<T>\<close> holds six bytes of data as an array of \<open>T\<close> and a 16-bit PEC;
  \<open>LTC6811RegisterGroup<T>\<close> holds a command and one register per device of the chain
  (\<open>kDaisyChainLength\<close> of them).
\<close>

record 'a LTC6811Register =
  data :: "'a list"
  PEC :: u16

record 'a LTC6811RegisterGroup =
  command :: "u8 list"
  register_group :: "'a LTC6811Register list"

definition kDaisyChainLength :: nat where
  "kDaisyChainLength = 12"

definition kDelta :: nat where
  "kDelta = 100"

text \<open>
  \<open>PEC15Calc\<close> reads the array through a \<open>uint8_t\<close> pointer. The object representation of
  an element is a parameter \<open>bytes\<close> of the model: one byte for \<open>uint8_t\<close>, two bytes with
  the low byte first for \<open>uint16_t\<close> on the little-endian target. \<open>PEC15Calc_array\<close> is
  the call \<open>PEC15Calc(data)\<close> with the default size \<open>S * sizeof(T)\<close>.
\<close>

definition bytes_u8 :: "u8 \<Rightarrow> u8 list" where
  "bytes_u8 x = [x]"

definition bytes_u16 :: "u16 \<Rightarrow> u8 list" where
  "bytes_u16 x = [ucast x, ucast (drop_bit 8 x)]"

definition serialized :: "('a \<Rightarrow> u8 list) \<Rightarrow> 'a list \<Rightarrow> u8 list" where
  "serialized bytes xs = concat (map bytes xs)"

definition PEC15Calc_array :: "('a \<Rightarrow> u8 list) \<Rightarrow> 'a list \<Rightarrow> u16 option" where
  "PEC15Calc_array bytes xs = PEC15Calc (serialized bytes xs) (length (serialized bytes xs))"

text \<open>The registers of a list all hold six bytes of data.\<close>

definition six_data_bytes :: "('a \<Rightarrow> u8 list) \<Rightarrow> 'a LTC6811Register list \<Rightarrow> bool" where
  "six_data_bytes bytes rs \<longleftrightarrow> (\<forall>r \<in> set rs. length (serialized bytes (data r)) = 6)"

text \<open>
  Modelled from the spec: the outcome of a bus transfer, \<open>ok|fail\<close> (section 6). The
  status type of the SPI library is declared outside the repository; the source
  compares a status with \<open>HAL_ERROR\<close> only.
\<close>

datatype HAL_StatusTypeDef = HAL_OK | HAL_ERROR

text \<open>
  What the bus does during one read transaction: the status of the transmission of the
  command, the status of the reception, and the registers the reception leaves in the
  buffer.
\<close>

record 'a spi_read =
  transmit_status :: HAL_StatusTypeDef
  receive_status :: HAL_StatusTypeDef
  received :: "'a LTC6811Register list"

text \<open>
  The loop of \<open>ReadRegisterGroup\<close> over the received registers:
  \<^verbatim>\<open>for (auto& Register : register_group.register_group)
      if (Register.PEC != PEC15Calc(Register.data))
          return 1; // PEC error
  return 0; // Success\<close>
\<close>

fun PEC_check :: "('a \<Rightarrow> u8 list) \<Rightarrow> 'a LTC6811Register list \<Rightarrow> bool option" where
  "PEC_check bytes [] = Some False"
| "PEC_check bytes (Register # rest) =
     (case PEC15Calc_array bytes (data Register) of
        None \<Rightarrow> None
      | Some pec \<Rightarrow> if PEC Register \<noteq> pec then Some True else PEC_check bytes rest)"

text \<open>
  \<open>ReadRegisterGroup\<close> returns \<open>1\<close> (\<open>True\<close>) on failure and \<open>0\<close> (\<open>False\<close>) on success,
  together with the register group as the call leaves it. The reception is attempted
  only if the transmission did not fail (\<open>||\<close> evaluates left to right). Waking the chain
  and driving the chip select neither read nor write the driver's data.
\<close>

definition ReadRegisterGroup ::
  "('a \<Rightarrow> u8 list) \<Rightarrow> 'a spi_read \<Rightarrow> 'a LTC6811RegisterGroup \<Rightarrow> (bool \<times> 'a LTC6811RegisterGroup) option" where
  "ReadRegisterGroup bytes spi rg =
     (if transmit_status spi = HAL_ERROR then Some (True, rg)
      else
        let rg' = rg\<lparr>register_group := received spi\<rparr>
        in if receive_status spi = HAL_ERROR then Some (True, rg')
           else map_option (\<lambda>result. (result, rg')) (PEC_check bytes (register_group rg')))"

subsection \<open>The voltage status\<close>

text \<open>
  \<open>LTC6811VoltageStatus\<close> with its default member initialisers: the sum is 0, the minimum
  starts at the greatest and the maximum at the least \<open>uint16_t\<close>. The fields \<open>sum\<close>, \<open>min\<close>
  and \<open>max\<close> carry a suffix here.
\<close>

record LTC6811VoltageStatus =
  sum_v :: nat
  min_v :: u16
  min_id :: nat
  max_v :: u16
  max_id :: nat

definition LTC6811VoltageStatus_init :: LTC6811VoltageStatus where
  "LTC6811VoltageStatus_init = \<lparr>sum_v = 0, min_v = 0xFFFF, min_id = 0, max_v = 0, max_id = 0\<rparr>"

text \<open>
  The body of the innermost loop of \<open>GetVoltageStatus\<close>, on the status and the counter:
  \<^verbatim>\<open>status.sum += voltage;
  if (voltage < status.min) {
      status.min = voltage;
      status.min_id = count;
  } else if (voltage > status.max) {
      status.max = voltage;
      status.max_id = count;
  }
  ++count;\<close>
\<close>

definition scan_voltage :: "u16 \<Rightarrow> LTC6811VoltageStatus \<times> nat \<Rightarrow> LTC6811VoltageStatus \<times> nat" where
  "scan_voltage voltage = (\<lambda>(status, count).
     let status = status\<lparr>sum_v := sum_v status + unat voltage\<rparr>;
         status =
           (if voltage < min_v status then status\<lparr>min_v := voltage, min_id := count\<rparr>
            else if voltage > max_v status then status\<lparr>max_v := voltage, max_id := count\<rparr>
            else status)
     in (status, count + 1))"

text \<open>
  The three nested range-based loops: over the register groups of \<open>cell_data\<close>, over the
  registers of a group, over the voltages of a register.
\<close>

definition scan_register ::
  "u16 LTC6811Register \<Rightarrow> LTC6811VoltageStatus \<times> nat \<Rightarrow> LTC6811VoltageStatus \<times> nat" where
  "scan_register Register = fold scan_voltage (data Register)"

definition scan_register_group ::
  "u16 LTC6811RegisterGroup \<Rightarrow> LTC6811VoltageStatus \<times> nat \<Rightarrow> LTC6811VoltageStatus \<times> nat" where
  "scan_register_group rg = fold scan_register (register_group rg)"

definition scan_cell_data :: "u16 LTC6811RegisterGroup list \<Rightarrow> LTC6811VoltageStatus" where
  "scan_cell_data cell_data = fst (fold scan_register_group cell_data (LTC6811VoltageStatus_init, 0))"

text \<open>
  \<open>ReadVoltageRegisterGroup(group)\<close> reads into \<open>cell_data[group]\<close>; the result is that of
  \<open>ReadRegisterGroup\<close>: \<open>True\<close> (1) for a failure, \<open>False\<close> (0) for a success.
\<close>

definition ReadVoltageRegisterGroup ::
  "u16 spi_read \<Rightarrow> nat \<Rightarrow> u16 LTC6811RegisterGroup list \<Rightarrow>
     (bool \<times> u16 LTC6811RegisterGroup list) option" where
  "ReadVoltageRegisterGroup spi grp cell_data =
     map_option (\<lambda>(result, rg). (result, cell_data[grp := rg]))
       (ReadRegisterGroup bytes_u16 spi (cell_data ! grp))"

text \<open>
  The read loop of \<open>GetVoltageStatus\<close>, over the groups still to read:
  \<^verbatim>\<open>for (size_t group = A; group <= D; ++group)
      if (!ReadVoltageRegisterGroup(static_cast<Group>(group)))
          return std::nullopt;\<close>
  \<open>spi group\<close> is what the bus does during the read of that group. The Boolean of the
  result says whether the function has returned \<open>std::nullopt\<close>.
\<close>

fun read_voltage_groups ::
  "(nat \<Rightarrow> u16 spi_read) \<Rightarrow> nat list \<Rightarrow> u16 LTC6811RegisterGroup list \<Rightarrow>
     (bool \<times> u16 LTC6811RegisterGroup list) option" where
  "read_voltage_groups spi [] cell_data = Some (False, cell_data)"
| "read_voltage_groups spi (grp # groups) cell_data =
     (case ReadVoltageRegisterGroup (spi grp) grp cell_data of
        None \<Rightarrow> None
      | Some (result, cell_data') \<Rightarrow>
          if \<not> result then Some (True, cell_data')
          else read_voltage_groups spi groups cell_data')"

text \<open>
  \<open>GetVoltageStatus\<close>: the conversion is started (a transmission whose status is
  discarded), the groups \<open>A = 0\<close> to \<open>D = 3\<close> are read, then the cells are scanned. The
  result is the optional status and \<open>cell_data\<close> as the call leaves it.
\<close>

definition GetVoltageStatus ::
  "(nat \<Rightarrow> u16 spi_read) \<Rightarrow> u16 LTC6811RegisterGroup list \<Rightarrow>
     (LTC6811VoltageStatus option \<times> u16 LTC6811RegisterGroup list) option" where
  "GetVoltageStatus spi cell_data =
     (case read_voltage_groups spi [0, 1, 2, 3] cell_data of
        None \<Rightarrow> None
      | Some (returned, cell_data') \<Rightarrow>
          if returned then Some (None, cell_data')
          else Some (Some (scan_cell_data cell_data'), cell_data'))"

text \<open>
  The voltage at position \<open>p\<close> of the register of device \<open>d\<close> in group \<open>g\<close>, and the
  voltages of \<open>cell_data\<close> in the order in which the three loops visit them.
\<close>

definition cell_voltage :: "u16 LTC6811RegisterGroup list \<Rightarrow> nat \<Rightarrow> nat \<Rightarrow> nat \<Rightarrow> u16" where
  "cell_voltage cell_data g d p = data (register_group (cell_data ! g) ! d) ! p"

definition cells :: "u16 LTC6811RegisterGroup list \<Rightarrow> u16 list" where
  "cells cell_data = concat (map (\<lambda>rg. concat (map data (register_group rg))) cell_data)"

text \<open>
  The shape of \<open>cell_data\<close> for a chain of \<open>N\<close> devices: \<open>N\<close> registers in every group and
  three voltages in every register.
\<close>

definition wf_cells :: "nat \<Rightarrow> u16 LTC6811RegisterGroup list \<Rightarrow> bool" where
  "wf_cells N cell_data \<longleftrightarrow>
     (\<forall>rg \<in> set cell_data. length (register_group rg) = N \<and>
        (\<forall>r \<in> set (register_group rg). length (data r) = 3))"

text \<open>
  The cell identity as the specification words it (section 3), for a chain of \<open>N\<close>
  devices: register group outer, position in the register middle, device inner.
\<close>

definition cell_id_as_stated :: "nat \<Rightarrow> nat \<Rightarrow> nat \<Rightarrow> nat \<Rightarrow> nat" where
  "cell_id_as_stated N grp position device = (grp * 3 + position) * N + device"

subsection \<open>Example inputs\<close>

text \<open>A register of three voltages \<open>v\<close> with its PEC left at 0, and groups of twelve.\<close>

definition flat_register :: "u16 \<Rightarrow> u16 LTC6811Register" where
  "flat_register v = \<lparr>data = [v, v, v], PEC = 0\<rparr>"

definition flat_group :: "u8 list \<Rightarrow> u16 \<Rightarrow> u16 LTC6811RegisterGroup" where
  "flat_group cmd v = \<lparr>command = cmd, register_group = replicate 12 (flat_register v)\<rparr>"

definition flat_cell_data :: "u16 \<Rightarrow> u16 LTC6811RegisterGroup list" where
  "flat_cell_data v =
     [flat_group [0, 4, 7, 194] v, flat_group [0, 6, 154, 148] v,
      flat_group [0, 8, 94, 82] v, flat_group [0, 10, 195, 4] v]"

text \<open>\<open>set_cell cell_data g d p v\<close> stores \<open>v\<close> at position \<open>p\<close> of device \<open>d\<close> in group \<open>g\<close>.\<close>

definition set_cell ::
  "u16 LTC6811RegisterGroup list \<Rightarrow> nat \<Rightarrow> nat \<Rightarrow> nat \<Rightarrow> u16 \<Rightarrow> u16 LTC6811RegisterGroup list" where
  "set_cell cell_data g d p v =
     cell_data[g := (cell_data ! g)\<lparr>register_group :=
       (register_group (cell_data ! g))[d :=
          (register_group (cell_data ! g) ! d)\<lparr>data := (data (register_group (cell_data ! g) ! d))[p := v]\<rparr>]\<rparr>]"

text \<open>
  A read in which both transfers succeed and all twelve registers arrive with data 0
  and the matching PEC \<open>0xC212\<close>; the same read with the PEC of the last register
  corrupted; and a read whose transmission fails.
\<close>

definition good_read :: "u16 spi_read" where
  "good_read = \<lparr>transmit_status = HAL_OK, receive_status = HAL_OK,
                 received = replicate 12 \<lparr>data = [0, 0, 0], PEC = 0xC212\<rparr>\<rparr>"

definition one_bad_PEC_read :: "u16 spi_read" where
  "one_bad_PEC_read = \<lparr>transmit_status = HAL_OK, receive_status = HAL_OK,
     received = replicate 11 \<lparr>data = [0, 0, 0], PEC = 0xC212\<rparr> @ [\<lparr>data = [0, 0, 0], PEC = 0xC213\<rparr>]\<rparr>"

definition failed_read :: "u16 spi_read" where
  "failed_read = \<lparr>transmit_status = HAL_ERROR, receive_status = HAL_ERROR, received = []\<rparr>"

definition all_reads_succeed :: "nat \<Rightarrow> u16 spi_read" where
  "all_reads_succeed grp = good_read"

definition all_reads_fail :: "nat \<Rightarrow> u16 spi_read" where
  "all_reads_fail grp = failed_read"

subsection \<open>The balancing decision\<close>

datatype DischargeMode = GTMinPlusDelta | MaxOnly | GTMeanPlusDelta

text \<open>
  \<open>std::array::operator[]\<close> does not check its index; an access outside the array is
  undefined in C++. The model stops there with the fault \<open>OutOfBounds i\<close>. \<open>NoReturn\<close> is
  the fault of a call whose PEC computation does not return.
\<close>

datatype fault = OutOfBounds nat | NoReturn

text \<open>
  The innermost loop of the two threshold policies, on \<open>DCCx\<close> and \<open>current_cell\<close>:
  \<^verbatim>\<open>for (const auto voltage : register_group.register_group[current_ic--].data) {
      if (voltage > voltage_status.min + kDelta)
          DCCx |= 1 << current_cell;
      ++current_cell;
  }\<close>
  The threshold is \<open>voltage_status.min + kDelta\<close> for \<open>GTMinPlusDelta\<close> and
  \<open>average_voltage + kDelta\<close> for \<open>GTMeanPlusDelta\<close>; neither sum wraps.
\<close>

fun voltage_loop :: "nat \<Rightarrow> u16 list \<Rightarrow> u16 \<times> u8 \<Rightarrow> u16 \<times> u8" where
  "voltage_loop threshold [] (DCCx, current_cell) = (DCCx, current_cell)"
| "voltage_loop threshold (voltage # rest) (DCCx, current_cell) =
     voltage_loop threshold rest
       (if unat voltage > threshold then DCCx OR push_bit (unat current_cell) 1 else DCCx,
        current_cell + 1)"

text \<open>
  The loop over the four voltage register groups. The register read in a group is
  \<open>register_group[current_ic--]\<close>: the counter, a \<open>uint8_t\<close>, is decremented once per
  group.
\<close>

fun group_loop ::
  "nat \<Rightarrow> u16 LTC6811RegisterGroup list \<Rightarrow> u16 \<times> u8 \<times> u8 \<Rightarrow> fault + u16 \<times> u8 \<times> u8" where
  "group_loop threshold [] (DCCx, current_cell, current_ic) = Inr (DCCx, current_cell, current_ic)"
| "group_loop threshold (rg # rest) (DCCx, current_cell, current_ic) =
     (if unat current_ic < length (register_group rg) then
        (case voltage_loop threshold (data (register_group rg ! unat current_ic)) (DCCx, current_cell) of
           (DCCx', current_cell') \<Rightarrow>
             group_loop threshold rest (DCCx', current_cell', current_ic - 1))
      else Inl (OutOfBounds (unat current_ic)))"

text \<open>
  The end of the body of the loop over the configuration registers:
  \<^verbatim>\<open>cfg_register.data[4] |= DCCx & 0xFF;
  cfg_register.data[5] |= DCCx >> 8 & 0xF;
  cfg_register.PEC = PEC15Calc(cfg_register.data);\<close>
\<close>

definition stage_DCCx :: "u16 \<Rightarrow> u8 LTC6811Register \<Rightarrow> fault + u8 LTC6811Register" where
  "stage_DCCx DCCx cfg_register =
     (let d = data cfg_register;
          d = d[4 := d ! 4 OR ucast (DCCx AND 0xFF)];
          d = d[5 := d ! 5 OR ucast (drop_bit 8 DCCx AND 0xF)]
      in case PEC15Calc_array bytes_u8 d of
           None \<Rightarrow> Inl NoReturn
         | Some pec \<Rightarrow> Inr (cfg_register\<lparr>data := d, PEC := pec\<rparr>))"

text \<open>
  The loop over the configuration registers of \<open>slave_cfg_tx\<close>. \<open>DCCx\<close> and
  \<open>current_cell\<close> are reset for every register; \<open>current_ic\<close> is not.
\<close>

fun cfg_loop ::
  "nat \<Rightarrow> u16 LTC6811RegisterGroup list \<Rightarrow> u8 LTC6811Register list \<Rightarrow> u8 \<Rightarrow>
     fault + u8 LTC6811Register list" where
  "cfg_loop threshold cell_data [] current_ic = Inr []"
| "cfg_loop threshold cell_data (cfg_register # rest) current_ic =
     (case group_loop threshold cell_data (0, 0, current_ic) of
        Inl f \<Rightarrow> Inl f
      | Inr (DCCx, current_cell, current_ic') \<Rightarrow>
          (case stage_DCCx DCCx cfg_register of
             Inl f \<Rightarrow> Inl f
           | Inr cfg_register' \<Rightarrow>
               (case cfg_loop threshold cell_data rest current_ic' of
                  Inl f \<Rightarrow> Inl f
                | Inr rest' \<Rightarrow> Inr (cfg_register' # rest'))))"

text \<open>
  The case \<open>MaxOnly\<close>:
  \<^verbatim>\<open>if (voltage_status.max - voltage_status.min > kDelta) {
      current_ic = voltage_status.max_id / 3 % 12;
      DCCx |= 1 << voltage_status.max_id % 11;
      slave_cfg_tx.register_group[current_ic].data[4] = DCCx & 0xFF;
      slave_cfg_tx.register_group[current_ic].data[5] = DCCx >> 8 & 0xF;
      slave_cfg_tx.register_group[current_ic].PEC =
          PEC15Calc(slave_cfg_tx.register_group[current_ic].data);
  }\<close>
  The difference of the two \<open>uint16_t\<close> values is computed on \<open>int\<close> and can be negative.
\<close>

definition stage_MaxOnly ::
  "LTC6811VoltageStatus \<Rightarrow> u8 LTC6811Register list \<Rightarrow> fault + u8 LTC6811Register list" where
  "stage_MaxOnly voltage_status regs =
     (if int (unat (max_v voltage_status)) - int (unat (min_v voltage_status)) > int kDelta then
        (let current_ic = (of_nat (max_id voltage_status div 3 mod 12) :: u8);
             DCCx = (0 :: u16) OR push_bit (max_id voltage_status mod 11) 1
         in if unat current_ic < length regs then
              (let d = data (regs ! unat current_ic);
                   d = d[4 := ucast (DCCx AND 0xFF)];
                   d = d[5 := ucast (drop_bit 8 DCCx AND 0xF)]
               in case PEC15Calc_array bytes_u8 d of
                    None \<Rightarrow> Inl NoReturn
                  | Some pec \<Rightarrow>
                      Inr (regs[unat current_ic := (regs ! unat current_ic)\<lparr>data := d, PEC := pec\<rparr>]))
            else Inl (OutOfBounds (unat current_ic)))
      else Inr regs)"

text \<open>
  \<open>BuildDischargeConfig\<close>. The members it reads are arguments (\<open>discharge_mode\<close>,
  \<open>cell_data\<close>, \<open>slave_cfg_tx\<close>, \<open>slave_cfg_rx\<close>), the members it writes are its result
  (\<open>slave_cfg_tx\<close> and \<open>slave_cfg_rx\<close>). After the \<open>switch\<close> the configuration is written
  (a transmission whose status is discarded) and read back into \<open>slave_cfg_rx\<close>, the
  result of the read being discarded too; \<open>spi\<close> is what the bus does during that read.
  \<open>current_ic\<close> starts at \<open>kDaisyChainLength - 1\<close>.
\<close>

definition BuildDischargeConfig ::
  "DischargeMode \<Rightarrow> LTC6811VoltageStatus \<Rightarrow> u8 spi_read \<Rightarrow> u16 LTC6811RegisterGroup list \<Rightarrow>
     u8 LTC6811RegisterGroup \<Rightarrow> u8 LTC6811RegisterGroup \<Rightarrow>
     fault + u8 LTC6811RegisterGroup \<times> u8 LTC6811RegisterGroup" where
  "BuildDischargeConfig discharge_mode voltage_status spi cell_data slave_cfg_tx slave_cfg_rx =
     (case (case discharge_mode of
              GTMinPlusDelta \<Rightarrow>
                cfg_loop (unat (min_v voltage_status) + kDelta) cell_data
                  (register_group slave_cfg_tx) (of_nat (kDaisyChainLength - 1))
            | MaxOnly \<Rightarrow> stage_MaxOnly voltage_status (register_group slave_cfg_tx)
            | GTMeanPlusDelta \<Rightarrow>
                cfg_loop (sum_v voltage_status div (12 * kDaisyChainLength) + kDelta) cell_data
                  (register_group slave_cfg_tx) (of_nat (kDaisyChainLength - 1))) of
        Inl f \<Rightarrow> Inl f
      | Inr regs \<Rightarrow>
          (case ReadRegisterGroup bytes_u8 spi slave_cfg_rx of
             None \<Rightarrow> Inl NoReturn
           | Some (result, slave_cfg_rx') \<Rightarrow>
               Inr (slave_cfg_tx\<lparr>register_group := regs\<rparr>, slave_cfg_rx')))"

text \<open>
  The twelve discharge bits of a configuration register read as one value: byte 4 is
  the low byte, byte 5 the high byte.
\<close>

definition DCC :: "u8 LTC6811Register \<Rightarrow> u16" where
  "DCC cfg_register = ucast (data cfg_register ! 4) OR push_bit 8 (ucast (data cfg_register ! 5))"

text \<open>
  The discharge bit of cell \<open>c\<close> of device \<open>d\<close> as the specification words it (section
  4.7): the voltage of that cell, taken in every group from the register at the
  chain-reversed position \<open>11 - d\<close> of the device, exceeds the threshold.
\<close>

definition discharge_bit_as_stated ::
  "nat \<Rightarrow> u16 LTC6811RegisterGroup list \<Rightarrow> nat \<Rightarrow> nat \<Rightarrow> bool" where
  "discharge_bit_as_stated threshold cell_data d c \<longleftrightarrow>
     unat (cell_voltage cell_data (c div 3) (11 - d) (c mod 3)) > threshold"

subsection \<open>Example inputs of the balancing decision\<close>

text \<open>
  The configuration registers as the constructor fills them
  (\<open>slave_cfg_tx.register_group.fill({ 0xFE, 0, 0, 0, 0, 0 })\<close>, which leaves the member
  \<open>PEC\<close> at 0). The constructor does not fill \<open>slave_cfg_rx\<close>; the example gives it the
  same content.
\<close>

definition initial_cfg_register :: "u8 LTC6811Register" where
  "initial_cfg_register = \<lparr>data = [0xFE, 0, 0, 0, 0, 0], PEC = 0\<rparr>"

definition initial_cfg_tx :: "u8 LTC6811RegisterGroup" where
  "initial_cfg_tx = \<lparr>command = [0x00, 0x01, 0x3D, 0x6E], register_group = replicate 12 initial_cfg_register\<rparr>"

definition initial_cfg_rx :: "u8 LTC6811RegisterGroup" where
  "initial_cfg_rx = \<lparr>command = [0x00, 0x02, 0x2B, 0x0A], register_group = replicate 12 initial_cfg_register\<rparr>"

text \<open>
  A read-back in which both transfers succeed and every register arrives with the
  data \<open>{0xFE, 0, 0, 0, 0, 0}\<close> and the matching PEC \<open>0x3732\<close>.
\<close>

definition read_back_register :: "u8 LTC6811Register" where
  "read_back_register = \<lparr>data = [0xFE, 0, 0, 0, 0, 0], PEC = 0x3732\<rparr>"

definition cfg_read_back :: "u8 spi_read" where
  "cfg_read_back = \<lparr>transmit_status = HAL_OK, receive_status = HAL_OK,
                     received = replicate 12 read_back_register\<rparr>"

text \<open>
  The status of a pack whose cells all hold 29000, and of a pack in which one cell,
  the one with identity \<open>max_id\<close>, holds 30000.
\<close>

definition flat_status :: LTC6811VoltageStatus where
  "flat_status = \<lparr>sum_v = 4176000, min_v = 29000, min_id = 0, max_v = 29000, max_id = 1\<rparr>"

definition one_high_status :: "nat \<Rightarrow> LTC6811VoltageStatus" where
  "one_high_status high_id = \<lparr>sum_v = 4177000, min_v = 29000, min_id = 0, max_v = 30000, max_id = high_id\<rparr>"

text \<open>The data bytes staged for device \<open>i\<close> by a call that returned.\<close>

definition staged_data ::
  "nat \<Rightarrow> fault + u8 LTC6811RegisterGroup \<times> u8 LTC6811RegisterGroup \<Rightarrow> fault + u8 list" where
  "staged_data i result = map_sum id (\<lambda>(tx, rx). data (register_group tx ! i)) result"

text \<open>
  A further call of \<open>BuildDischargeConfig\<close> on the members as an earlier call left
  them.
\<close>

definition then_BuildDischargeConfig ::
  "DischargeMode \<Rightarrow> LTC6811VoltageStatus \<Rightarrow> u8 spi_read \<Rightarrow> u16 LTC6811RegisterGroup list \<Rightarrow>
     fault + u8 LTC6811RegisterGroup \<times> u8 LTC6811RegisterGroup \<Rightarrow>
     fault + u8 LTC6811RegisterGroup \<times> u8 LTC6811RegisterGroup" where
  "then_BuildDischargeConfig discharge_mode voltage_status spi cell_data earlier =
     (case earlier of
        Inl f \<Rightarrow> Inl f
      | Inr (slave_cfg_tx, slave_cfg_rx) \<Rightarrow>
          BuildDischargeConfig discharge_mode voltage_status spi cell_data slave_cfg_tx slave_cfg_rx)"

text \<open>
  The data of a configuration register after a mask is staged as the specification
  words it (section 3, DischargeConfig): the low 8 bits of the mask OR'd onto byte 4
  and its high 4 bits OR'd onto bits 0 to 3 of byte 5.
\<close>

definition DCC_ored_as_stated :: "u16 \<Rightarrow> u8 list \<Rightarrow> u8 list" where
  "DCC_ored_as_stated mask12 d =
     d[4 := d ! 4 OR ucast (mask12 AND 0xFF), 5 := d ! 5 OR ucast (drop_bit 8 mask12 AND 0xF)]"

section \<open>PEC15: the loop against the specified algorithm\<close>

lemma crc15Table_length: "length crc15Table = 256"
  by (simp add: crc15Table_def)

lemma crc15Table_index_in_range: "unat ((x :: u16) AND 0xFF) < length crc15Table"
proof -
  have "x AND 0xFF \<le> 0xFF"
    by (rule word_and_le1)
  then have "unat (x AND 0xFF) \<le> unat (0xFF :: u16)"
    by (simp add: word_le_nat_alt)
  then show ?thesis
    by (simp add: crc15Table_length)
qed

lemma PEC15Calc_loop_run:
  "k \<le> n \<Longrightarrow> n \<le> length ds \<Longrightarrow> n \<le> 255 \<Longrightarrow>
     PEC15Calc_loop ds n (of_nat k) acc = Some (foldl pec15_step acc (take (n - k) (drop k ds)))"
proof (induction "n - k" arbitrary: k acc)
  case 0
  then have "k = n" by simp
  moreover have "unat (of_nat n :: u8) = n"
    using 0 by (simp add: unat_of_nat)
  ultimately show ?case
    by (subst PEC15Calc_loop.simps) simp
next
  case (Suc m)
  then have k: "k < n" "k < length ds" "k < 256" by simp_all
  have uk: "unat (of_nat k :: u8) = k"
    using k by (simp add: unat_of_nat)
  have next_i: "(of_nat k :: u8) + 1 = of_nat (Suc k)"
    by simp
  have m: "m = n - Suc k" using Suc.hyps(2) by simp
  have unfold: "take (n - k) (drop k ds) = ds ! k # take (n - Suc k) (drop (Suc k) ds)"
  proof -
    have "n - k = Suc (n - Suc k)" using k by simp
    moreover have "drop k ds = ds ! k # drop (Suc k) ds"
      using k by (simp add: Cons_nth_drop_Suc)
    ultimately show ?thesis by simp
  qed
  have IH: "PEC15Calc_loop ds n (of_nat (Suc k)) (pec15_step acc (ds ! k)) =
      Some (foldl pec15_step (pec15_step acc (ds ! k)) (take (n - Suc k) (drop (Suc k) ds)))"
    using Suc.hyps(1) [of "Suc k" "pec15_step acc (ds ! k)"] m k Suc.prems by simp
  have step: "PEC15Calc_loop ds n (of_nat k) acc =
      PEC15Calc_loop ds n (of_nat (Suc k)) (pec15_step acc (ds ! k))"
    by (subst PEC15Calc_loop.simps) (simp only: uk k if_True Let_def next_i pec15_step_def)
  show ?case
    by (simp only: step IH unfold foldl_Cons)
qed

lemma PEC15Calc_returns:
  "n \<le> length ds \<Longrightarrow> n \<le> 255 \<Longrightarrow> PEC15Calc ds n = Some (pec15 (take n ds))"
  using PEC15Calc_loop_run [of 0 n ds 16] by (simp add: PEC15Calc_def pec15_def)

lemma PEC15Calc_loop_no_return:
  assumes "PEC15Calc_loop ds n i acc = Some y"
  shows "n < 256"
proof (rule PEC15Calc_loop.raw_induct [where P = "\<lambda>ds n i acc y. n < 256", OF _ assms])
  fix f :: "u8 list \<Rightarrow> nat \<Rightarrow> u8 \<Rightarrow> u16 \<Rightarrow> u16 option"
  fix ds n i acc y
  assume IH: "\<And>ds n i acc y. f ds n i acc = Some y \<Longrightarrow> n < 256"
  assume body: "(if unat i < n then
        (if unat i < length ds then
           (let addr = (drop_bit 7 acc XOR ucast (ds ! unat i)) AND 0xFF;
                PEC' = push_bit 8 acc XOR crc15Table ! unat addr
            in f ds n (i + 1) PEC')
         else None)
      else Some acc) = Some y"
  show "n < 256"
  proof (rule ccontr)
    assume big: "\<not> n < 256"
    have "unat i < 256"
      using unsigned_less [of i] by simp
    with big have "unat i < n" by simp
    with body obtain acc' where "f ds n (i + 1) acc' = Some y"
      by (auto split: if_splits simp: Let_def)
    then have "n < 256" by (rule IH)
    with big show False by simp
  qed
qed

lemma PEC15Calc_256_None: "256 \<le> n \<Longrightarrow> PEC15Calc ds n = None"
proof -
  assume n: "256 \<le> n"
  have "PEC15Calc_loop ds n 0 16 = None"
  proof (cases "PEC15Calc_loop ds n 0 16")
    case (Some y)
    then have "n < 256" by (rule PEC15Calc_loop_no_return)
    with n show ?thesis by simp
  qed simp
  then show ?thesis by (simp add: PEC15Calc_def)
qed

text \<open>
  C8 (as amended). For every byte sequence of at most 255 bytes, \<open>PEC15Calc\<close> returns,
  and its result is the value of the specified algorithm: accumulator 16, one step
  \<open>index = ((accumulator >> 7) XOR byte) & 0xFF\<close>,
  \<open>accumulator = (accumulator << 8) XOR table[index]\<close> per byte, and a final shift left
  by one bit.
\<close>

theorem PEC15Calc_refines_pec15:
  "length bytes \<le> 255 \<Longrightarrow> PEC15Calc bytes (length bytes) = Some (pec15 bytes)"
  using PEC15Calc_returns [of "length bytes" bytes] by simp

theorem PEC15Calc_refines_pec15_witness:
  "length [0, 1 :: u8] \<le> 255 \<and> PEC15Calc [0, 1] (length [0, 1 :: u8]) = Some (pec15 [0, 1])"
  using PEC15Calc_refines_pec15 [of "[0, 1]"] by simp

text \<open>
  C8 (as stated) fails at a sequence of 256 bytes: the 8-bit counter never reaches the
  size, and the call does not return the specified value (it does not return).
\<close>

theorem PEC15Calc_256_bytes_counterexample:
  "PEC15Calc (replicate 256 0) (length (replicate 256 (0 :: u8))) \<noteq> Some (pec15 (replicate 256 0))"
  using PEC15Calc_256_None [of "length (replicate 256 (0 :: u8))" "replicate 256 0"] by simp

section \<open>The start-cell-voltage-conversion command\<close>

lemma Mode_high_bit: "drop_bit 1 (Mode_value mode AND 0x02) = (if bit (Mode_value mode) 1 then 1 else 0)"
  by (cases mode) simp_all

lemma Mode_low_bit: "push_bit 7 (Mode_value mode AND 0x01) = (if bit (Mode_value mode) 0 then 0x80 else 0)"
  by (cases mode) simp_all

lemma PEC15Calc_command:
  "PEC15Calc [b0, b1, b2, b3] 2 = Some (pec15 [b0, b1])"
  using PEC15Calc_returns [of 2 "[b0, b1, b2, b3]"] by simp

text \<open>
  C7 (as amended). For every mode, discharge-permission value and cell-channel selector,
  the command built by the constructor has byte 0 equal to \<open>0x02\<close> with bit 1 of the
  mode folded into bit 0 of byte 0, byte 1 equal to \<open>0x60\<close> with bit 0 of the mode folded
  into bit 7, OR'd with the discharge-permission value shifted left by 4 and with the
  cell-channel selector, and its two trailing bytes are the PEC15 of the first two
  bytes, high byte first.
\<close>

theorem LTC6811_ADCV_layout:
  assumes "length ADCV = 4"
  shows "LTC6811_ADCV ADCV mode dcp cell =
           (let byte0 = 0x02 OR (if bit (Mode_value mode) 1 then 1 else 0);
                byte1 = (if bit (Mode_value mode) 0 then 0x80 else 0) OR 0x60
                          OR push_bit 4 (DCP_value dcp) OR CellCh_value cell;
                pec = pec15 [byte0, byte1]
            in Some [byte0, byte1, ucast (drop_bit 8 pec), ucast pec])"
proof -
  from assms obtain a b c d where ADCV: "ADCV = [a, b, c, d]"
    by (cases ADCV; cases "tl ADCV"; cases "tl (tl ADCV)"; cases "tl (tl (tl ADCV))") auto
  show ?thesis
    unfolding LTC6811_ADCV_def ADCV Mode_high_bit Mode_low_bit
    by (simp add: Let_def PEC15Calc_command)
qed

theorem LTC6811_ADCV_layout_witness:
  "length [0, 0, 0, 0 :: u8] = 4 \<and>
   LTC6811_ADCV [0, 0, 0, 0] Normal Enabled TwoAndEight = Some [0x03, 0x72, 0x32, 0x14]"
  using LTC6811_ADCV_layout [of "[0, 0, 0, 0]" Normal Enabled TwoAndEight]
  by (simp add: pec15_def pec15_step_def crc15Table_def)

text \<open>
  C7 (as stated) fails for the mode \<open>Normal\<close>: byte 0 of the built command is \<open>0x03\<close>, with
  the mode bit at bit 0, which is not \<open>0x02\<close> with a bit folded into bit 1, whichever
  mode bits are chosen.
\<close>

theorem LTC6811_ADCV_byte0_counterexample:
  "map_option (take 2) (LTC6811_ADCV [0, 0, 0, 0] Normal Disabled AllCell) = Some [0x03, 0x60] \<and>
   [0x03, 0x60] \<noteq> ADCV_opcode_as_stated False False Disabled AllCell \<and>
   [0x03, 0x60] \<noteq> ADCV_opcode_as_stated False True Disabled AllCell \<and>
   [0x03, 0x60] \<noteq> ADCV_opcode_as_stated True False Disabled AllCell \<and>
   [0x03, 0x60] \<noteq> ADCV_opcode_as_stated True True Disabled AllCell"
  by (simp add: LTC6811_ADCV_def PEC15Calc_command ADCV_opcode_as_stated_def)

section \<open>Reading a register group\<close>

lemma PEC15Calc_array_returns:
  "length (serialized bytes xs) \<le> 255 \<Longrightarrow>
     PEC15Calc_array bytes xs = Some (pec15 (serialized bytes xs))"
  using PEC15Calc_returns [of "length (serialized bytes xs)" "serialized bytes xs"]
  by (simp add: PEC15Calc_array_def)

lemma PEC_check_iff:
  "\<forall>r \<in> set rs. length (serialized bytes (data r)) = 6 \<Longrightarrow>
     PEC_check bytes rs = Some (\<exists>r \<in> set rs. PEC r \<noteq> pec15 (serialized bytes (data r)))"
  by (induction rs) (simp_all add: PEC15Calc_array_returns)

text \<open>
  C10. Provided every received register holds six data bytes, \<open>ReadRegisterGroup\<close>
  returns, and it returns the failure signal exactly when the transmission failed, or
  the reception failed, or the PEC recomputed over the data bytes of some received
  register differs from that register's received PEC; so it returns success exactly
  when both transfers succeeded and the PEC of every register matches.
\<close>

theorem ReadRegisterGroup_fails_iff:
  assumes "six_data_bytes bytes (received spi)"
  shows "\<exists>failed rg'. ReadRegisterGroup bytes spi rg = Some (failed, rg') \<and>
           (failed \<longleftrightarrow>
              transmit_status spi = HAL_ERROR \<or> receive_status spi = HAL_ERROR \<or>
              (\<exists>r \<in> set (received spi). PEC r \<noteq> pec15 (serialized bytes (data r))))"
  using PEC_check_iff [OF assms [unfolded six_data_bytes_def]]
  by (simp add: ReadRegisterGroup_def Let_def)

theorem ReadRegisterGroup_fails_iff_witness:
  "six_data_bytes bytes_u16 (received one_bad_PEC_read) \<and>
   (\<exists>rg'. ReadRegisterGroup bytes_u16 one_bad_PEC_read
            \<lparr>command = [0, 4, 7, 194], register_group = replicate 12 \<lparr>data = [0, 0, 0], PEC = 0\<rparr>\<rparr>
          = Some (True, rg'))"
proof -
  let ?rg = "\<lparr>command = [0, 4, 7, 194 :: u8],
              register_group = replicate 12 \<lparr>data = [0, 0, 0 :: u16], PEC = 0\<rparr>\<rparr>"
  have six: "six_data_bytes bytes_u16 (received one_bad_PEC_read)"
    by (auto simp: six_data_bytes_def one_bad_PEC_read_def serialized_def bytes_u16_def)
  have bad: "\<exists>r \<in> set (received one_bad_PEC_read). PEC r \<noteq> pec15 (serialized bytes_u16 (data r))"
    by (simp add: one_bad_PEC_read_def serialized_def bytes_u16_def pec15_def pec15_step_def
        crc15Table_def)
  from ReadRegisterGroup_fails_iff [OF six, of ?rg] obtain failed rg'
    where "ReadRegisterGroup bytes_u16 one_bad_PEC_read ?rg = Some (failed, rg')"
      and "failed \<longleftrightarrow>
             transmit_status one_bad_PEC_read = HAL_ERROR \<or>
             receive_status one_bad_PEC_read = HAL_ERROR \<or>
             (\<exists>r \<in> set (received one_bad_PEC_read). PEC r \<noteq> pec15 (serialized bytes_u16 (data r)))"
    by blast
  with bad have "ReadRegisterGroup bytes_u16 one_bad_PEC_read ?rg = Some (True, rg')"
    by simp
  then have "\<exists>rg'. ReadRegisterGroup bytes_u16 one_bad_PEC_read ?rg = Some (True, rg')"
    by blast
  with six show ?thesis
    by blast
qed

section \<open>The voltage scan\<close>

lemma replicate_12: "replicate 12 x = [x, x, x, x, x, x, x, x, x, x, x, x]"
  by (simp add: numeral_eq_Suc)
lemma fold_concat_fold: "fold f (concat xss) = fold (fold f) xss"
  by (induction xss) simp_all

lemma scan_as_one_pass:
  "fold scan_register_group cd s = fold scan_voltage (cells cd) s"
proof -
  have reg: "scan_register = (\<lambda>r. fold scan_voltage (data r))"
    by (simp add: fun_eq_iff scan_register_def)
  have grp: "scan_register_group = (\<lambda>rg. fold scan_voltage (concat (map data (register_group rg))))"
    by (simp add: fun_eq_iff scan_register_group_def reg fold_concat_fold fold_map comp_def)
  show ?thesis
    by (simp add: cells_def grp fold_concat_fold fold_map comp_def)
qed

lemma scan_voltage_fields:
  "snd (scan_voltage x (st, c)) = c + 1"
  "min_v (fst (scan_voltage x (st, c))) = (if x < min_v st then x else min_v st)"
  "min_id (fst (scan_voltage x (st, c))) = (if x < min_v st then c else min_id st)"
  "max_v (fst (scan_voltage x (st, c))) = (if \<not> x < min_v st \<and> max_v st < x then x else max_v st)"
  "max_id (fst (scan_voltage x (st, c))) = (if \<not> x < min_v st \<and> max_v st < x then c else max_id st)"
  "sum_v (fst (scan_voltage x (st, c))) = sum_v st + unat x"
  by (simp_all add: scan_voltage_def Let_def)

lemma scan_voltage_pair: "scan_voltage x (st, c) = (fst (scan_voltage x (st, c)), c + 1)"
  by (simp add: scan_voltage_def Let_def)

lemma fold_scan_Cons:
  "fold scan_voltage (x # xs) (st, c) = fold scan_voltage xs (fst (scan_voltage x (st, c)), c + 1)"
proof -
  have "fold scan_voltage (x # xs) (st, c) = fold scan_voltage xs (scan_voltage x (st, c))"
    by simp
  also have "scan_voltage x (st, c) = (fst (scan_voltage x (st, c)), c + 1)"
    by (rule scan_voltage_pair)
  finally show ?thesis .
qed

lemma scan_min_unchanged:
  "\<forall>x \<in> set xs. \<not> x < min_v st \<Longrightarrow>
     min_v (fst (fold scan_voltage xs (st, c))) = min_v st \<and>
     min_id (fst (fold scan_voltage xs (st, c))) = min_id st"
proof (induction xs arbitrary: st c)
  case Nil
  show ?case by simp
next
  case (Cons x xs)
  let ?st = "fst (scan_voltage x (st, c))"
  have "\<forall>y \<in> set xs. \<not> y < min_v ?st"
    using Cons.prems by (simp add: scan_voltage_fields)
  from Cons.IH [OF this, of "c + 1"] show ?case
    using Cons.prems by (simp add: fold_scan_Cons scan_voltage_fields del: fold.simps)
qed

lemma scan_max_unchanged:
  "\<forall>x \<in> set xs. \<not> max_v st < x \<Longrightarrow>
     max_v (fst (fold scan_voltage xs (st, c))) = max_v st \<and>
     max_id (fst (fold scan_voltage xs (st, c))) = max_id st"
proof (induction xs arbitrary: st c)
  case Nil
  show ?case by simp
next
  case (Cons x xs)
  let ?st = "fst (scan_voltage x (st, c))"
  have "\<forall>y \<in> set xs. \<not> max_v ?st < y"
    using Cons.prems by (simp add: scan_voltage_fields)
  from Cons.IH [OF this, of "c + 1"] show ?case
    using Cons.prems by (simp add: fold_scan_Cons scan_voltage_fields del: fold.simps)
qed

lemma scan_min_unique:
  "k < length xs \<Longrightarrow> xs ! k < min_v st \<Longrightarrow> \<forall>j < length xs. j \<noteq> k \<longrightarrow> xs ! k < xs ! j \<Longrightarrow>
     min_id (fst (fold scan_voltage xs (st, c))) = c + k"
proof (induction xs arbitrary: st c k)
  case Nil
  then show ?case by simp
next
  case (Cons x xs)
  let ?st = "fst (scan_voltage x (st, c))"
  have step: "fold scan_voltage (x # xs) (st, c) = fold scan_voltage xs (?st, c + 1)"
    by (rule fold_scan_Cons)
  show ?case
  proof (cases k)
    case 0
    with Cons.prems have x: "x < min_v st" and rest: "\<forall>j < length xs. x < xs ! j"
      by auto
    have "\<forall>y \<in> set xs. x \<le> y"
      using rest by (auto simp: in_set_conv_nth less_imp_le)
    then have "\<forall>y \<in> set xs. \<not> y < min_v ?st"
      using x by (simp add: scan_voltage_fields not_less)
    from scan_min_unchanged [OF this, of "c + 1"] show ?thesis
      using x 0 by (simp add: step scan_voltage_fields del: fold.simps)
  next
    case (Suc k')
    with Cons.prems have k': "k' < length xs" and lt: "xs ! k' < min_v st" and ltx: "xs ! k' < x"
      and rest: "\<forall>j < length xs. j \<noteq> k' \<longrightarrow> xs ! k' < xs ! j"
      by auto
    have "xs ! k' < min_v ?st"
      using lt ltx by (simp add: scan_voltage_fields)
    from Cons.IH [OF k' this rest, of "c + 1"] show ?thesis
      using Suc by (simp add: step del: fold.simps)
  qed
qed

lemma scan_max_unique:
  "k < length xs \<Longrightarrow> max_v st < xs ! k \<Longrightarrow> min_v st \<le> xs ! k \<Longrightarrow>
   \<forall>j < length xs. j \<noteq> k \<longrightarrow> xs ! j < xs ! k \<Longrightarrow>
     max_id (fst (fold scan_voltage xs (st, c))) = c + k"
proof (induction xs arbitrary: st c k)
  case Nil
  then show ?case by simp
next
  case (Cons x xs)
  let ?st = "fst (scan_voltage x (st, c))"
  have step: "fold scan_voltage (x # xs) (st, c) = fold scan_voltage xs (?st, c + 1)"
    by (rule fold_scan_Cons)
  show ?case
  proof (cases k)
    case 0
    with Cons.prems have x: "max_v st < x" "min_v st \<le> x" and rest: "\<forall>j < length xs. xs ! j < x"
      by auto
    have "\<forall>y \<in> set xs. y \<le> x"
      using rest by (auto simp: in_set_conv_nth less_imp_le)
    then have "\<forall>y \<in> set xs. \<not> max_v ?st < y"
      using x by (simp add: scan_voltage_fields not_less)
    from scan_max_unchanged [OF this, of "c + 1"] show ?thesis
      using x 0 by (simp add: step scan_voltage_fields not_less del: fold.simps)
  next
    case (Suc k')
    with Cons.prems have k': "k' < length xs" and lt: "max_v st < xs ! k'" "min_v st \<le> xs ! k'"
      and ltx: "x < xs ! k'"
      and rest: "\<forall>j < length xs. j \<noteq> k' \<longrightarrow> xs ! j < xs ! k'"
      by auto
    have "max_v ?st < xs ! k'" "min_v ?st \<le> xs ! k'"
      using lt ltx by (simp_all add: scan_voltage_fields less_imp_le)
    from Cons.IH [OF k' this rest, of "c + 1"] show ?thesis
      using Suc by (simp add: step del: fold.simps)
  qed
qed


lemma nth_concat_uniform:
  "\<forall>xs \<in> set xss. length xs = n \<Longrightarrow> i < length xss \<Longrightarrow> j < n \<Longrightarrow>
     concat xss ! (i * n + j) = xss ! i ! j"
proof (induction xss arbitrary: i)
  case Nil
  then show ?case by simp
next
  case (Cons xs xss)
  show ?case
  proof (cases i)
    case 0
    with Cons.prems show ?thesis by (simp add: nth_append)
  next
    case (Suc i')
    with Cons.prems have "concat xss ! (i' * n + j) = xss ! i' ! j"
      by (intro Cons.IH) auto
    moreover have "(xs @ concat xss) ! (n + (i' * n + j)) = concat xss ! (i' * n + j)"
      using Cons.prems(1) nth_append_length_plus [of xs "concat xss" "i' * n + j"] by simp
    ultimately show ?thesis
      using Suc by (simp add: add.assoc)
  qed
qed

lemma length_concat_uniform:
  "\<forall>xs \<in> set xss. length xs = n \<Longrightarrow> length (concat xss) = length xss * n"
  by (induction xss) simp_all

lemma cells_length: "wf_cells N cd \<Longrightarrow> length (cells cd) = length cd * (N * 3)"
proof -
  assume wf: "wf_cells N cd"
  have "\<forall>xs \<in> set (map (\<lambda>rg. concat (map data (register_group rg))) cd). length xs = N * 3"
  proof
    fix xs assume "xs \<in> set (map (\<lambda>rg. concat (map data (register_group rg))) cd)"
    then obtain rg where rg: "rg \<in> set cd" and xs: "xs = concat (map data (register_group rg))"
      by auto
    from wf rg have "\<forall>ys \<in> set (map data (register_group rg)). length ys = 3"
      by (auto simp: wf_cells_def)
    from length_concat_uniform [OF this] wf rg show "length xs = N * 3"
      by (simp add: xs wf_cells_def)
  qed
  from length_concat_uniform [OF this] show ?thesis
    by (simp add: cells_def)
qed

lemma cells_nth:
  assumes wf: "wf_cells N cd" and g: "g < length cd" and d: "d < N" and p: "p < 3"
  shows "cells cd ! (g * (N * 3) + (d * 3 + p)) = cell_voltage cd g d p"
proof -
  let ?row = "\<lambda>rg. concat (map data (register_group rg))"
  have rows: "\<forall>xs \<in> set (map ?row cd). length xs = N * 3"
  proof
    fix xs assume "xs \<in> set (map ?row cd)"
    then obtain rg where rg: "rg \<in> set cd" and xs: "xs = ?row rg"
      by auto
    from wf rg have "\<forall>ys \<in> set (map data (register_group rg)). length ys = 3"
      by (auto simp: wf_cells_def)
    from length_concat_uniform [OF this] wf rg show "length xs = N * 3"
      by (simp add: xs wf_cells_def)
  qed
  have in_row: "d * 3 + p < N * 3"
    using d p by arith
  have "cells cd ! (g * (N * 3) + (d * 3 + p)) = map ?row cd ! g ! (d * 3 + p)"
    unfolding cells_def using rows g in_row by (intro nth_concat_uniform) simp_all
  also have "\<dots> = ?row (cd ! g) ! (d * 3 + p)"
    using g by simp
  also have "\<dots> = map data (register_group (cd ! g)) ! d ! p"
  proof -
    have "cd ! g \<in> set cd" using g by simp
    with wf have "\<forall>ys \<in> set (map data (register_group (cd ! g))). length ys = 3"
      and "length (register_group (cd ! g)) = N"
      by (auto simp: wf_cells_def)
    then show ?thesis
      using d p by (intro nth_concat_uniform) simp_all
  qed
  also have "\<dots> = cell_voltage cd g d p"
  proof -
    have "cd ! g \<in> set cd" using g by simp
    with wf have "length (register_group (cd ! g)) = N"
      by (auto simp: wf_cells_def)
    then show ?thesis using d by (simp add: cell_voltage_def)
  qed
  finally show ?thesis .
qed

lemma flat_index_decompose:
  fixes j G N :: nat
  assumes "j < G * (N * 3)"
  shows "j div (N * 3) < G \<and> j mod (N * 3) div 3 < N \<and> j mod 3 < 3 \<and>
         j = j div (N * 3) * (N * 3) + (j mod (N * 3) div 3 * 3 + j mod 3)"
proof -
  have N: "0 < N * 3"
    using assms by (cases "N * 3") auto
  have a: "j div (N * 3) < G"
    using assms N by (simp add: less_mult_imp_div_less)
  have b: "j mod (N * 3) div 3 < N"
    using N by (simp add: less_mult_imp_div_less mult.commute)
  have "j mod (N * 3) mod 3 = j mod 3"
    by (simp add: mod_mod_cancel)
  then have c: "j mod (N * 3) = j mod (N * 3) div 3 * 3 + j mod 3"
    by (metis div_mult_mod_eq)
  have e: "j = j div (N * 3) * (N * 3) + (j mod (N * 3) div 3 * 3 + j mod 3)"
    by (subst c [symmetric]) (rule div_mult_mod_eq [symmetric])
  have f: "j mod 3 < 3"
    by simp
  from a b e f show ?thesis
    by blast
qed


lemma u16_less_max: "(a :: u16) < b \<Longrightarrow> a < 0xFFFF"
proof -
  assume "a < b"
  then have "unat a < unat b"
    by (simp add: word_less_nat_alt)
  moreover have "unat b < 65536"
    using unsigned_less [of b, where 'a = nat] by simp
  ultimately have "unat a < unat (0xFFFF :: u16)"
    by simp
  then show ?thesis
    by (simp only: word_less_nat_alt)
qed

lemma cells_unique:
  assumes wf: "wf_cells N cd" and g: "g < length cd" and d: "d < N" and p: "p < 3"
    and others: "\<And>g' d' p'. g' < length cd \<Longrightarrow> d' < N \<Longrightarrow> p' < 3 \<Longrightarrow> (g', d', p') \<noteq> (g, d, p) \<Longrightarrow>
                   R (cell_voltage cd g d p) (cell_voltage cd g' d' p')"
    and j: "j < length (cells cd)" "j \<noteq> g * (N * 3) + (d * 3 + p)"
  shows "R (cells cd ! (g * (N * 3) + (d * 3 + p))) (cells cd ! j)"
proof -
  let ?g = "j div (N * 3)" and ?d = "j mod (N * 3) div 3" and ?p = "j mod 3"
  from j(1) have "j < length cd * (N * 3)"
    by (simp add: cells_length [OF wf])
  from flat_index_decompose [OF this]
  have r: "?g < length cd" "?d < N" "?p < 3" and eq: "j = ?g * (N * 3) + (?d * 3 + ?p)"
    by blast+
  have "(?g, ?d, ?p) \<noteq> (g, d, p)"
    using eq j(2) by auto
  from others [OF r this] show ?thesis
    using cells_nth [OF wf g d p] cells_nth [OF wf r] eq by simp
qed

text \<open>
  C4 (as amended). The cell identity recorded in \<open>min_id\<close> and \<open>max_id\<close> enumerates the
  cells with the register groups as the outer index, the device \<open>0..N-1\<close> as the middle
  index and the position in the register \<open>0..2\<close> as the inner, fastest-varying index:
  when the cell at position \<open>p\<close> of device \<open>d\<close> in group \<open>g\<close> holds a voltage strictly below
  every other cell, \<open>min_id\<close> is \<open>g * 3N + d * 3 + p\<close>, and when it holds a voltage strictly
  above every other cell and is not the first cell visited, \<open>max_id\<close> is that number.
\<close>

theorem cell_identity_order:
  assumes wf: "wf_cells N cd"
    and g: "g < length cd" and d: "d < N" and p: "p < 3"
  shows "((\<forall>g' d' p'. g' < length cd \<longrightarrow> d' < N \<longrightarrow> p' < 3 \<longrightarrow> (g', d', p') \<noteq> (g, d, p) \<longrightarrow>
             cell_voltage cd g d p < cell_voltage cd g' d' p') \<longrightarrow>
          min_id (scan_cell_data cd) = g * (3 * N) + d * 3 + p) \<and>
         ((\<forall>g' d' p'. g' < length cd \<longrightarrow> d' < N \<longrightarrow> p' < 3 \<longrightarrow> (g', d', p') \<noteq> (g, d, p) \<longrightarrow>
             cell_voltage cd g' d' p' < cell_voltage cd g d p) \<longrightarrow>
          (g, d, p) \<noteq> (0, 0, 0) \<longrightarrow>
          max_id (scan_cell_data cd) = g * (3 * N) + d * 3 + p)"
proof (intro conjI impI)
  let ?k = "g * (N * 3) + (d * 3 + p)"
  let ?xs = "cells cd"
  have len: "length ?xs = length cd * (N * 3)"
    by (rule cells_length [OF wf])
  have "?k < g * (N * 3) + N * 3"
    using d p by arith
  also have "\<dots> = Suc g * (N * 3)"
    by simp
  also have "\<dots> \<le> length cd * (N * 3)"
    using g by (intro mult_le_mono1) simp
  finally have k: "?k < length ?xs"
    by (simp add: len)
  have scan: "scan_cell_data cd = fst (fold scan_voltage ?xs (LTC6811VoltageStatus_init, 0))"
    by (simp add: scan_cell_data_def scan_as_one_pass)
  have idx: "g * (3 * N) + d * 3 + p = ?k"
    by (simp add: mult.commute)
  {
    assume least: "\<forall>g' d' p'. g' < length cd \<longrightarrow> d' < N \<longrightarrow> p' < 3 \<longrightarrow> (g', d', p') \<noteq> (g, d, p) \<longrightarrow>
             cell_voltage cd g d p < cell_voltage cd g' d' p'"
    have uniq: "\<forall>j < length ?xs. j \<noteq> ?k \<longrightarrow> ?xs ! ?k < ?xs ! j"
      using cells_unique [OF wf g d p, where R = "(<)"] least by blast
    define p' :: nat where "p' = (if p = 0 then 1 else 0)"
    then have p': "p' < 3" "p' \<noteq> p"
      by simp_all
    with least g d have "cell_voltage cd g d p < cell_voltage cd g d p'"
      by blast
    then have "cell_voltage cd g d p < 0xFFFF"
      by (rule u16_less_max)
    then have "?xs ! ?k < min_v LTC6811VoltageStatus_init"
      by (simp add: cells_nth [OF wf g d p] LTC6811VoltageStatus_init_def)
    from scan_min_unique [OF k this uniq, of 0]
    show "min_id (scan_cell_data cd) = g * (3 * N) + d * 3 + p"
      by (simp add: scan idx)
  }
  {
    assume greatest: "\<forall>g' d' p'. g' < length cd \<longrightarrow> d' < N \<longrightarrow> p' < 3 \<longrightarrow> (g', d', p') \<noteq> (g, d, p) \<longrightarrow>
             cell_voltage cd g' d' p' < cell_voltage cd g d p"
      and not_first: "(g, d, p) \<noteq> (0, 0, 0)"
    have uniq: "\<forall>j < length ?xs. j \<noteq> ?k \<longrightarrow> ?xs ! j < ?xs ! ?k"
      using cells_unique [OF wf g d p, where R = "\<lambda>a b. b < a"] greatest by blast
    from not_first have "?k \<noteq> 0"
      using d by auto
    then obtain k' where k': "?k = Suc k'"
      by (cases ?k) auto
    from k obtain x xs where xs: "?xs = x # xs"
      by (cases ?xs) auto
    have x: "x < xs ! k'"
      using uniq k k' xs by (auto dest: spec [of _ 0])
    then have x_less: "x < 0xFFFF"
      by (rule u16_less_max)
    let ?st = "fst (scan_voltage x (LTC6811VoltageStatus_init, 0))"
    have st: "min_v ?st = x" "max_v ?st = 0"
      using x_less by (simp_all add: scan_voltage_fields LTC6811VoltageStatus_init_def)
    have a: "k' < length xs"
      using k k' xs by simp
    have b: "max_v ?st < xs ! k'"
    proof -
      have "0 \<le> x" by simp
      from this x have "0 < xs ! k'" by (rule le_less_trans)
      then show ?thesis by (simp add: st)
    qed
    have c: "min_v ?st \<le> xs ! k'"
      using x by (simp add: st less_imp_le)
    have e: "\<forall>j < length xs. j \<noteq> k' \<longrightarrow> xs ! j < xs ! k'"
    proof (intro allI impI)
      fix j assume "j < length xs" "j \<noteq> k'"
      then have "Suc j < length ?xs" "Suc j \<noteq> ?k"
        using xs k' by simp_all
      with uniq have "?xs ! Suc j < ?xs ! ?k"
        by blast
      then show "xs ! j < xs ! k'"
        by (simp add: xs k')
    qed
    from scan_max_unique [OF a b c e, of "0 + 1"]
    show "max_id (scan_cell_data cd) = g * (3 * N) + d * 3 + p"
      by (simp add: scan idx xs fold_scan_Cons k' del: fold.simps)
  }
qed


lemmas example_defs =
  set_cell_def flat_cell_data_def flat_group_def flat_register_def replicate_12

lemmas scan_defs =
  scan_cell_data_def scan_register_group_def scan_register_def scan_voltage_def
  LTC6811VoltageStatus_init_def Let_def

lemma wf_cells_example: "wf_cells 12 (set_cell (flat_cell_data v) 0 1 0 w)"
  by (simp add: wf_cells_def example_defs)

lemma cell_voltage_flat:
  assumes "g' < 4" "d' < 12" "p' < 3"
  shows "cell_voltage (flat_cell_data v) g' d' p' = v"
proof -
  from assms(3) have "p' = 0 \<or> p' = 1 \<or> p' = 2"
    by arith
  then have p: "[v, v, v] ! p' = v"
    by auto
  from assms(1) have "g' = 0 \<or> g' = 1 \<or> g' = 2 \<or> g' = 3"
    by arith
  then show ?thesis
    using assms(2) p
    by (auto simp: cell_voltage_def flat_cell_data_def flat_group_def flat_register_def)
qed

lemma cell_voltage_set_cell:
  assumes "g < length cd" "d < length (register_group (cd ! g))"
    "p < length (data (register_group (cd ! g) ! d))"
  shows "cell_voltage (set_cell cd g d p w) g' d' p' =
           (if (g', d', p') = (g, d, p) then w else cell_voltage cd g' d' p')"
  using assms by (auto simp: cell_voltage_def set_cell_def nth_list_update)

lemma cell_voltage_example:
  assumes "g' < 4" "d' < 12" "p' < 3"
  shows "cell_voltage (set_cell (flat_cell_data v) 0 1 0 w) g' d' p' =
           (if (g', d', p') = (0, 1, 0) then w else v)"
proof -
  have "cell_voltage (set_cell (flat_cell_data v) 0 1 0 w) g' d' p' =
          (if (g', d', p') = (0, 1, 0) then w else cell_voltage (flat_cell_data v) g' d' p')"
    by (rule cell_voltage_set_cell)
      (simp_all add: flat_cell_data_def flat_group_def flat_register_def)
  then show ?thesis
    using assms by (simp add: cell_voltage_flat)
qed

theorem cell_identity_order_witness:
  "wf_cells 12 (set_cell (flat_cell_data 29000) 0 1 0 100) \<and>
   min_id (scan_cell_data (set_cell (flat_cell_data 29000) 0 1 0 100)) = 3 \<and>
   max_id (scan_cell_data (set_cell (flat_cell_data 29000) 0 1 0 30000)) = 3"
proof -
  let ?lo = "set_cell (flat_cell_data 29000) 0 1 0 100"
  let ?hi = "set_cell (flat_cell_data 29000) 0 1 0 30000"
  have len: "length ?lo = 4" "length ?hi = 4"
    by (simp_all add: example_defs)
  have least: "\<forall>g' d' p'. g' < length ?lo \<longrightarrow> d' < 12 \<longrightarrow> p' < 3 \<longrightarrow> (g', d', p') \<noteq> (0, 1, 0) \<longrightarrow>
      cell_voltage ?lo 0 1 0 < cell_voltage ?lo g' d' p'"
  proof (intro allI impI)
    fix g' d' p' :: nat
    assume r: "g' < length ?lo" "d' < 12" "p' < 3" "(g', d', p') \<noteq> (0, 1, 0)"
    then have "g' < 4" by (simp only: len)
    with r have "cell_voltage ?lo g' d' p' = 29000"
      using cell_voltage_example [of g' d' p' 29000 100] by simp
    moreover have "cell_voltage ?lo 0 1 0 = 100"
      using cell_voltage_example [of 0 1 0 29000 100] by simp
    ultimately show "cell_voltage ?lo 0 1 0 < cell_voltage ?lo g' d' p'"
      by simp
  qed
  have greatest: "\<forall>g' d' p'. g' < length ?hi \<longrightarrow> d' < 12 \<longrightarrow> p' < 3 \<longrightarrow> (g', d', p') \<noteq> (0, 1, 0) \<longrightarrow>
      cell_voltage ?hi g' d' p' < cell_voltage ?hi 0 1 0"
  proof (intro allI impI)
    fix g' d' p' :: nat
    assume r: "g' < length ?hi" "d' < 12" "p' < 3" "(g', d', p') \<noteq> (0, 1, 0)"
    then have "g' < 4" by (simp only: len)
    with r have "cell_voltage ?hi g' d' p' = 29000"
      using cell_voltage_example [of g' d' p' 29000 30000] by simp
    moreover have "cell_voltage ?hi 0 1 0 = 30000"
      using cell_voltage_example [of 0 1 0 29000 30000] by simp
    ultimately show "cell_voltage ?hi g' d' p' < cell_voltage ?hi 0 1 0"
      by simp
  qed
  have g: "0 < length ?lo" "0 < length ?hi"
    by (simp_all only: len)
  have d: "(1 :: nat) < 12" and p: "(0 :: nat) < 3" and not_first: "(0 :: nat, 1 :: nat, 0 :: nat) \<noteq> (0, 0, 0)"
    by simp_all
  from cell_identity_order [OF wf_cells_example g(1) d p] least
  have "min_id (scan_cell_data ?lo) = 0 * (3 * 12) + 1 * 3 + 0"
    by blast
  moreover from cell_identity_order [OF wf_cells_example g(2) d p] greatest not_first
  have "max_id (scan_cell_data ?hi) = 0 * (3 * 12) + 1 * 3 + 0"
    by blast
  ultimately show ?thesis
    using wf_cells_example [of 29000 100] by simp
qed

text \<open>
  C4 (as stated) fails on a chain of twelve devices in which position 0 of device 1 in
  group A holds the only voltage below all others: the recorded identity is 3, while
  the stated order (position in the middle, device innermost) gives 1.
\<close>

theorem cell_identity_as_stated_counterexample:
  "min_id (scan_cell_data (set_cell (flat_cell_data 29000) 0 1 0 100)) \<noteq> cell_id_as_stated 12 0 0 1"
  by (simp add: cell_id_as_stated_def scan_defs example_defs)

text \<open>
  C5, evaluated where it fails. The first cell visited (group A, device 0, position 0)
  holds 30000 and the 143 other cells hold 29000. The sum and the minimum are right,
  but the first cell takes the branch of the minimum and is never compared with the
  maximum: the scan reports the maximum 29000 at identity 2 instead of 30000 at
  identity 0.
\<close>

theorem scan_misses_first_maximum:
  "cell_voltage (set_cell (flat_cell_data 29000) 0 0 0 30000) 0 0 0 = 30000 \<and>
   scan_cell_data (set_cell (flat_cell_data 29000) 0 0 0 30000) =
     \<lparr>sum_v = 4177000, min_v = 29000, min_id = 1, max_v = 29000, max_id = 2\<rparr>"
  by (simp add: cell_voltage_def scan_defs example_defs)

lemma pec15_zero_data: "pec15 (serialized bytes_u16 [0, 0, 0]) = 0xC212"
  by (simp add: serialized_def bytes_u16_def pec15_def pec15_step_def crc15Table_def)

lemma ReadRegisterGroup_good_read:
  "ReadRegisterGroup bytes_u16 good_read rg = Some (False, rg\<lparr>register_group := received good_read\<rparr>)"
proof -
  have six: "\<forall>r \<in> set (received good_read). length (serialized bytes_u16 (data r)) = 6"
    by (simp add: good_read_def serialized_def bytes_u16_def)
  have "\<not> (\<exists>r \<in> set (received good_read). PEC r \<noteq> pec15 (serialized bytes_u16 (data r)))"
    by (simp add: good_read_def pec15_zero_data)
  with PEC_check_iff [OF six] show ?thesis
    by (simp add: ReadRegisterGroup_def Let_def good_read_def)
qed

lemma ReadRegisterGroup_failed_read:
  "transmit_status spi = HAL_ERROR \<Longrightarrow> ReadRegisterGroup bytes spi rg = Some (True, rg)"
  by (simp add: ReadRegisterGroup_def)

text \<open>
  C1, evaluated where it fails. When every read succeeds (\<open>ReadVoltageRegisterGroup\<close>
  returns 0), \<open>GetVoltageStatus\<close> returns \<open>std::nullopt\<close> after the read of group A and
  leaves groups B to D unread; when every read fails (returns 1), it scans the
  buffers and returns a status.
\<close>

theorem GetVoltageStatus_inverted_check:
  "map_option fst (ReadVoltageRegisterGroup good_read 0 (flat_cell_data 29000)) = Some False \<and>
   GetVoltageStatus all_reads_succeed (flat_cell_data 29000) =
     Some (None, (flat_cell_data 29000)
       [0 := \<lparr>command = [0, 4, 7, 194], register_group = received good_read\<rparr>]) \<and>
   map_option fst (ReadVoltageRegisterGroup failed_read 0 (flat_cell_data 29000)) = Some True \<and>
   GetVoltageStatus all_reads_fail (flat_cell_data 29000) =
     Some (Some (scan_cell_data (flat_cell_data 29000)), flat_cell_data 29000)"
proof -
  have failed: "ReadRegisterGroup bytes_u16 failed_read rg = Some (True, rg)" for rg
    by (rule ReadRegisterGroup_failed_read) (simp add: failed_read_def)
  show ?thesis
    by (simp add: GetVoltageStatus_def ReadVoltageRegisterGroup_def ReadRegisterGroup_good_read
        failed all_reads_succeed_def all_reads_fail_def flat_cell_data_def flat_group_def)
qed


section \<open>The balancing decision\<close>

lemma serialized_bytes_u8: "serialized bytes_u8 xs = xs"
  by (induction xs) (simp_all add: serialized_def bytes_u8_def)

lemma PEC15Calc_array_u8: "length d = 6 \<Longrightarrow> PEC15Calc_array bytes_u8 d = Some (pec15 d)"
  using PEC15Calc_array_returns [of bytes_u8 d] by (simp add: serialized_bytes_u8)

lemma stage_DCCx_returns:
  "length (data r) = 6 \<Longrightarrow> \<exists>r'. stage_DCCx DCCx r = Inr r' \<and> length (data r') = 6"
  by (simp add: stage_DCCx_def Let_def PEC15Calc_array_u8)

lemma group_loop_run:
  "length cd \<le> unat ic + 1 \<Longrightarrow> \<forall>rg \<in> set cd. unat ic < length (register_group rg) \<Longrightarrow>
     \<exists>DCCx' cc'. group_loop thr cd (DCCx, cc, ic) = Inr (DCCx', cc', ic - of_nat (length cd))"
proof (induction cd arbitrary: DCCx cc ic)
  case Nil
  show ?case by simp
next
  case (Cons rg rest)
  obtain D1 c1 where v: "voltage_loop thr (data (register_group rg ! unat ic)) (DCCx, cc) = (D1, c1)"
    by (cases "voltage_loop thr (data (register_group rg ! unat ic)) (DCCx, cc)") auto
  have here: "unat ic < length (register_group rg)"
    using Cons.prems by simp
  have "\<exists>DCCx' cc'. group_loop thr rest (D1, c1, ic - 1) = Inr (DCCx', cc', ic - 1 - of_nat (length rest))"
  proof (cases rest)
    case Nil
    then show ?thesis by simp
  next
    case (Cons rg' rest')
    with Cons.prems have "unat ic \<noteq> 0" by auto
    then have "ic \<noteq> 0" by (auto simp: unat_eq_0)
    then have u: "unat (ic - 1) = unat ic - 1"
      by (simp add: unat_minus_one)
    show ?thesis
    proof (rule Cons.IH)
      show "length rest \<le> unat (ic - 1) + 1"
        using Cons.prems \<open>unat ic \<noteq> 0\<close> by (simp add: u)
      show "\<forall>rg \<in> set rest. unat (ic - 1) < length (register_group rg)"
        using Cons.prems by (auto simp: u)
    qed
  qed
  then show ?case
    using here v by (simp add: diff_diff_eq add.commute)
qed

lemma group_loop_out_of_bounds:
  "length (register_group rg) \<le> unat ic \<Longrightarrow>
     group_loop thr (rg # rest) (DCCx, cc, ic) = Inl (OutOfBounds (unat ic))"
  by simp

lemma cfg_loop_step:
  assumes "group_loop thr cd (0, 0, ic) = Inr (DCCx, cc, ic')"
    and "length (data r) = 6"
    and "cfg_loop thr cd rest ic' = Inl f"
  shows "cfg_loop thr cd (r # rest) ic = Inl f"
proof -
  from stage_DCCx_returns [OF assms(2)] obtain r' where "stage_DCCx DCCx r = Inr r'"
    by blast
  with assms(1,3) show ?thesis by simp
qed

lemma cfg_loop_out_of_bounds:
  assumes cd: "length cd = 4" "\<forall>rg \<in> set cd. length (register_group rg) = 12"
    and regs: "4 \<le> length regs" "\<forall>r \<in> set regs. length (data r) = 6"
  shows "cfg_loop thr cd regs 11 = Inl (OutOfBounds 255)"
proof -
  from regs(1) obtain r0 r1 r2 r3 rest where split: "regs = r0 # r1 # r2 # r3 # rest"
    by (cases regs; cases "tl regs"; cases "tl (tl regs)"; cases "tl (tl (tl regs))") auto
  from cd(1) obtain rg cd' where cd': "cd = rg # cd'"
    by (cases cd) auto
  have run: "\<exists>DCCx' cc'. group_loop thr cd (0, 0, ic) = Inr (DCCx', cc', ic - 4)"
    if "3 \<le> unat ic" "unat ic < 12" for ic
    using group_loop_run [of cd ic thr 0 0] that cd by simp
  obtain D0 c0 where g0: "group_loop thr cd (0, 0, 11) = Inr (D0, c0, 7)"
    using run [of 11] by auto
  obtain D1 c1 where g1: "group_loop thr cd (0, 0, 7) = Inr (D1, c1, 3)"
    using run [of 7] by auto
  obtain D2 c2 where g2: "group_loop thr cd (0, 0, 3) = Inr (D2, c2, 255)"
    using run [of 3] by auto
  have "length (register_group rg) \<le> unat (255 :: u8)"
    using cd(2) cd' by simp
  then have g3: "group_loop thr cd (0, 0, 255) = Inl (OutOfBounds 255)"
    unfolding cd' by (subst group_loop_out_of_bounds) simp_all
  have six: "length (data r0) = 6" "length (data r1) = 6" "length (data r2) = 6"
    using regs(2) split by simp_all
  have "cfg_loop thr cd (r3 # rest) 255 = Inl (OutOfBounds 255)"
    using g3 by simp
  then have "cfg_loop thr cd (r2 # r3 # rest) 3 = Inl (OutOfBounds 255)"
    by (rule cfg_loop_step [OF g2 six(3)])
  then have "cfg_loop thr cd (r1 # r2 # r3 # rest) 7 = Inl (OutOfBounds 255)"
    by (rule cfg_loop_step [OF g1 six(2)])
  then have "cfg_loop thr cd (r0 # r1 # r2 # r3 # rest) 11 = Inl (OutOfBounds 255)"
    by (rule cfg_loop_step [OF g0 six(1)])
  then show ?thesis
    by (simp only: split)
qed

lemma BuildDischargeConfig_threshold_out_of_bounds:
  assumes "discharge_mode \<noteq> MaxOnly"
    and "length cd = 4" "\<forall>rg \<in> set cd. length (register_group rg) = 12"
    and "4 \<le> length (register_group slave_cfg_tx)"
    and "\<forall>r \<in> set (register_group slave_cfg_tx). length (data r) = 6"
  shows "BuildDischargeConfig discharge_mode voltage_status spi cd slave_cfg_tx slave_cfg_rx =
           Inl (OutOfBounds 255)"
  using assms(1) cfg_loop_out_of_bounds [OF assms(2-5)]
  by (cases discharge_mode) (simp_all add: BuildDischargeConfig_def kDaisyChainLength_def)


lemma flat_cell_data_shape:
  "length (flat_cell_data v) = 4" "\<forall>rg \<in> set (flat_cell_data v). length (register_group rg) = 12"
  by (simp_all add: flat_cell_data_def flat_group_def)

lemma initial_cfg_tx_shape:
  "4 \<le> length (register_group initial_cfg_tx)"
  "\<forall>r \<in> set (register_group initial_cfg_tx). length (data r) = 6"
  by (simp_all add: initial_cfg_tx_def initial_cfg_register_def)

text \<open>
  C3, evaluated where it fails. On a pack of twelve devices whose cells all hold
  29000, with the configuration registers as the constructor leaves them, both
  threshold policies read \<open>register_group[255]\<close>: \<open>current_ic\<close> is decremented once per
  register group, reaches 0 at the last group of the third configuration register
  and wraps to 255, the index of the first access for the fourth one. By
  \<open>BuildDischargeConfig_threshold_out_of_bounds\<close> the same holds for every well-formed
  call under these two policies.
\<close>

theorem current_ic_leaves_bounds:
  "BuildDischargeConfig GTMinPlusDelta flat_status cfg_read_back (flat_cell_data 29000)
     initial_cfg_tx initial_cfg_rx = Inl (OutOfBounds 255) \<and>
   BuildDischargeConfig GTMeanPlusDelta flat_status cfg_read_back (flat_cell_data 29000)
     initial_cfg_tx initial_cfg_rx = Inl (OutOfBounds 255)"
  using flat_cell_data_shape [of 29000] initial_cfg_tx_shape
  by (simp add: BuildDischargeConfig_threshold_out_of_bounds)

text \<open>
  C2, evaluated where it fails. Only the cell at position 0 of the register at chain
  position 11 in group B holds more (30000) than the minimum 29000 plus 100; it is
  cell 3 of device 0, whose bit 3 the stated rule sets. The code computes the mask 0
  for device 0: it reads group A at position 11, group B at position 10, group C at
  position 9 and group D at position 8, and leaves \<open>current_ic\<close> at 7. The whole call
  then runs out of the arrays at the fourth configuration register.
\<close>

theorem device_0_reads_four_positions:
  "discharge_bit_as_stated (unat (min_v (one_high_status 69)) + kDelta)
     (set_cell (flat_cell_data 29000) 1 11 0 30000) 0 3 \<and>
   group_loop (unat (min_v (one_high_status 69)) + kDelta)
     (set_cell (flat_cell_data 29000) 1 11 0 30000) (0, 0, 11) = Inr (0, 12, 7) \<and>
   BuildDischargeConfig GTMinPlusDelta (one_high_status 69) cfg_read_back
     (set_cell (flat_cell_data 29000) 1 11 0 30000) initial_cfg_tx initial_cfg_rx =
     Inl (OutOfBounds 255)"
proof -
  let ?cd = "set_cell (flat_cell_data 29000) 1 11 0 30000"
  have shape: "length ?cd = 4" "\<forall>rg \<in> set ?cd. length (register_group rg) = 12"
    by (simp_all add: set_cell_def flat_cell_data_def flat_group_def)
  have a: "discharge_bit_as_stated (unat (min_v (one_high_status 69)) + kDelta) ?cd 0 3"
    by (simp add: discharge_bit_as_stated_def cell_voltage_def one_high_status_def kDelta_def
        set_cell_def flat_cell_data_def flat_group_def flat_register_def)
  have b: "group_loop (unat (min_v (one_high_status 69)) + kDelta) ?cd (0, 0, 11) = Inr (0, 12, 7)"
    by (simp add: one_high_status_def kDelta_def
        set_cell_def flat_cell_data_def flat_group_def flat_register_def)
  have c: "BuildDischargeConfig GTMinPlusDelta (one_high_status 69) cfg_read_back ?cd
             initial_cfg_tx initial_cfg_rx = Inl (OutOfBounds 255)"
    using shape initial_cfg_tx_shape by (simp add: BuildDischargeConfig_threshold_out_of_bounds)
  from a b c show ?thesis by blast
qed


lemma word_cat_low_high:
  "(ucast (ucast (x AND 0xFF :: u16) :: u8) :: u16) OR
     push_bit 8 (ucast (ucast (drop_bit 8 x AND 0xF :: u16) :: u8)) = x AND 0xFFF"
proof -
  have m: "(0xFF :: u16) = mask 8" "(0xF :: u16) = mask 4" "(0xFFF :: u16) = mask 12"
    by (simp_all add: mask_eq_exp_minus_1)
  show ?thesis
    unfolding m by (rule bit_word_eqI) (auto simp: bit_simps)
qed

lemma DCC_of_staged:
  assumes "length d = 6"
  shows "DCC \<lparr>data = d[4 := ucast (DCCx AND 0xFF), 5 := ucast (drop_bit 8 DCCx AND 0xF)], PEC = pec\<rparr>
           = DCCx AND 0xFFF"
proof -
  have "d[4 := ucast (DCCx AND 0xFF), 5 := ucast (drop_bit 8 DCCx AND 0xF)] ! 4 = ucast (DCCx AND 0xFF)"
    and "d[4 := ucast (DCCx AND 0xFF), 5 := ucast (drop_bit 8 DCCx AND 0xF)] ! 5 = ucast (drop_bit 8 DCCx AND 0xF)"
    using assms by simp_all
  then show ?thesis
    by (simp only: DCC_def LTC6811Register.simps word_cat_low_high)
qed

lemma bit_one_bit: "b < 12 \<Longrightarrow> bit (push_bit b 1 :: u16) n \<longleftrightarrow> n = b"
  by (auto simp: bit_simps)

lemma one_bit: "b < 12 \<Longrightarrow> (push_bit b 1 :: u16) AND 0xFFF = push_bit b 1"
proof -
  assume b: "b < 12"
  have m: "(0xFFF :: u16) = mask 12"
    by (simp add: mask_eq_exp_minus_1)
  show ?thesis
    unfolding m
  proof (rule bit_word_eqI)
    fix n assume "n < LENGTH(16)"
    show "bit (push_bit b 1 AND mask 12 :: u16) n \<longleftrightarrow> bit (push_bit b 1 :: u16) n"
      using b by (simp only: bit_and_iff bit_mask_iff bit_one_bit) auto
  qed
qed


lemma ReadRegisterGroup_returns:
  "\<forall>r \<in> set (received spi). length (serialized bytes (data r)) = 6 \<Longrightarrow>
     \<exists>result rg'. ReadRegisterGroup bytes spi rg = Some (result, rg')"
  using PEC_check_iff [of "received spi" bytes]
  by (auto simp: ReadRegisterGroup_def Let_def)

lemma stage_MaxOnly_below:
  "\<not> int (unat (max_v vs)) - int (unat (min_v vs)) > 100 \<Longrightarrow> stage_MaxOnly vs regs = Inr regs"
  by (simp add: stage_MaxOnly_def kDelta_def)

lemma stage_MaxOnly_above:
  assumes above: "int (unat (max_v vs)) - int (unat (min_v vs)) > 100"
    and len: "length regs = 12"
    and six: "\<forall>r \<in> set regs. length (data r) = 6"
  shows "stage_MaxOnly vs regs =
           Inr (regs[max_id vs div 3 mod 12 :=
             (regs ! (max_id vs div 3 mod 12))
               \<lparr>data := (data (regs ! (max_id vs div 3 mod 12)))
                          [4 := ucast (push_bit (max_id vs mod 11) 1 AND 0xFF :: u16),
                           5 := ucast (drop_bit 8 (push_bit (max_id vs mod 11) 1 :: u16) AND 0xF)],
                PEC := pec15 ((data (regs ! (max_id vs div 3 mod 12)))
                          [4 := ucast (push_bit (max_id vs mod 11) 1 AND 0xFF :: u16),
                           5 := ucast (drop_bit 8 (push_bit (max_id vs mod 11) 1 :: u16) AND 0xF)])\<rparr>])"
proof -
  let ?ic = "max_id vs div 3 mod 12"
  have ic: "?ic < 12" by simp
  then have u: "unat (of_nat ?ic :: u8) = ?ic"
    by (simp add: unat_of_nat)
  have "regs ! ?ic \<in> set regs"
    using ic len by simp
  with six have "length (data (regs ! ?ic)) = 6"
    by blast
  then have pec: "PEC15Calc_array bytes_u8 ((data (regs ! ?ic))[4 := x, 5 := y]) =
      Some (pec15 ((data (regs ! ?ic))[4 := x, 5 := y]))" for x y
    by (simp add: PEC15Calc_array_u8)
  show ?thesis
    using above ic len unfolding stage_MaxOnly_def Let_def u
    by (simp add: kDelta_def pec)
qed

text \<open>
  C6. Under the max-only policy, on a chain of twelve configuration registers of six
  data bytes each (and a read-back of such registers), \<open>BuildDischargeConfig\<close> returns.
  If the maximum exceeds the minimum by more than 100, the register of device
  \<open>max_id / 3 mod 12\<close> is left with exactly one of its discharge bits set, the bit at
  position \<open>max_id mod 11\<close>, its bytes 0 to 3 are unchanged, its PEC is that of its new
  data, and the registers of all other devices are unchanged; otherwise the staged
  configuration is unchanged.
\<close>

theorem BuildDischargeConfig_MaxOnly:
  assumes len: "length (register_group slave_cfg_tx) = kDaisyChainLength"
    and tx_six: "six_data_bytes bytes_u8 (register_group slave_cfg_tx)"
    and rx_six: "six_data_bytes bytes_u8 (received spi)"
  shows "\<exists>tx' rx'.
     BuildDischargeConfig MaxOnly voltage_status spi cd slave_cfg_tx slave_cfg_rx = Inr (tx', rx') \<and>
     (if int (unat (max_v voltage_status)) - int (unat (min_v voltage_status)) > 100 then
        command tx' = command slave_cfg_tx \<and>
        length (register_group tx') = kDaisyChainLength \<and>
        (\<forall>n. bit (DCC (register_group tx' ! (max_id voltage_status div 3 mod 12))) n \<longleftrightarrow>
               n = max_id voltage_status mod 11) \<and>
        length (data (register_group tx' ! (max_id voltage_status div 3 mod 12))) = 6 \<and>
        (\<forall>i < 4. data (register_group tx' ! (max_id voltage_status div 3 mod 12)) ! i =
                  data (register_group slave_cfg_tx ! (max_id voltage_status div 3 mod 12)) ! i) \<and>
        PEC (register_group tx' ! (max_id voltage_status div 3 mod 12)) =
          pec15 (data (register_group tx' ! (max_id voltage_status div 3 mod 12))) \<and>
        (\<forall>j < kDaisyChainLength. j \<noteq> max_id voltage_status div 3 mod 12 \<longrightarrow>
               register_group tx' ! j = register_group slave_cfg_tx ! j)
      else tx' = slave_cfg_tx)"
proof -
  let ?regs = "register_group slave_cfg_tx"
  let ?ic = "max_id voltage_status div 3 mod 12"
  let ?b = "max_id voltage_status mod 11"
  have six: "\<forall>r \<in> set ?regs. length (data r) = 6"
    using tx_six by (simp add: six_data_bytes_def serialized_bytes_u8)
  have "\<forall>r \<in> set (received spi). length (serialized bytes_u8 (data r)) = 6"
    using rx_six by (simp add: six_data_bytes_def)
  from ReadRegisterGroup_returns [OF this, of slave_cfg_rx]
  obtain result rx' where rd: "ReadRegisterGroup bytes_u8 spi slave_cfg_rx = Some (result, rx')"
    by blast
  have len12: "length ?regs = 12"
    using len by (simp add: kDaisyChainLength_def)
  show ?thesis
  proof (cases "int (unat (max_v voltage_status)) - int (unat (min_v voltage_status)) > 100")
    case False
    then show ?thesis
      using rd by (simp add: BuildDischargeConfig_def stage_MaxOnly_below)
  next
    case True
    let ?d = "(data (?regs ! ?ic))
                [4 := ucast (push_bit ?b 1 AND 0xFF :: u16),
                 5 := ucast (drop_bit 8 (push_bit ?b 1 :: u16) AND 0xF)]"
    let ?r' = "(?regs ! ?ic)\<lparr>data := ?d, PEC := pec15 ?d\<rparr>"
    let ?tx' = "slave_cfg_tx\<lparr>register_group := ?regs[?ic := ?r']\<rparr>"
    have run: "BuildDischargeConfig MaxOnly voltage_status spi cd slave_cfg_tx slave_cfg_rx = Inr (?tx', rx')"
      using rd stage_MaxOnly_above [OF True len12 six]
      by (simp add: BuildDischargeConfig_def)
    have ic: "?ic < length ?regs"
      using len12 by simp
    then have "?regs ! ?ic \<in> set ?regs"
      by simp
    with six have d6: "length (data (?regs ! ?ic)) = 6"
      by blast
    have at_ic: "register_group ?tx' ! ?ic = ?r'"
      using ic by simp
    have b: "?b < 12"
      by (rule less_trans [of _ 11]) simp_all
    have "DCC ?r' = push_bit ?b 1 AND 0xFFF"
      using DCC_of_staged [OF d6, of "push_bit ?b 1" "pec15 ?d"] by (simp add: DCC_def)
    then have dcc: "DCC ?r' = push_bit ?b 1"
      by (simp only: one_bit [OF b])
    have bits: "\<forall>n. bit (DCC (register_group ?tx' ! ?ic)) n \<longleftrightarrow> n = ?b"
      by (simp only: at_ic dcc bit_one_bit [OF b]) simp
    have low: "\<forall>i < 4. data (register_group ?tx' ! ?ic) ! i = data (?regs ! ?ic) ! i"
      by (simp only: at_ic) simp
    have others: "\<forall>j < kDaisyChainLength. j \<noteq> ?ic \<longrightarrow> register_group ?tx' ! j = ?regs ! j"
      by simp
    have rest: "command ?tx' = command slave_cfg_tx"
      "length (register_group ?tx') = kDaisyChainLength"
      "length (data (register_group ?tx' ! ?ic)) = 6"
      "PEC (register_group ?tx' ! ?ic) = pec15 (data (register_group ?tx' ! ?ic))"
      using len d6 by (simp_all only: at_ic) simp_all
    from run True bits low others rest show ?thesis
      by (intro exI [of _ ?tx'] exI [of _ rx']) (simp only: if_True simp_thms)
  qed
qed


lemma initial_cfg_shape:
  "length (register_group initial_cfg_tx) = kDaisyChainLength"
  "\<forall>r \<in> set (received cfg_read_back). length (data r) = 6"
  "six_data_bytes bytes_u8 (register_group initial_cfg_tx)"
  "six_data_bytes bytes_u8 (received cfg_read_back)"
  by (simp_all add: initial_cfg_tx_def cfg_read_back_def initial_cfg_register_def
      read_back_register_def kDaisyChainLength_def six_data_bytes_def serialized_bytes_u8)

theorem BuildDischargeConfig_MaxOnly_witness:
  "length (register_group initial_cfg_tx) = kDaisyChainLength \<and>
   six_data_bytes bytes_u8 (register_group initial_cfg_tx) \<and>
   six_data_bytes bytes_u8 (received cfg_read_back) \<and>
   (\<exists>tx' rx'.
      BuildDischargeConfig MaxOnly (one_high_status 69) cfg_read_back
        (set_cell (flat_cell_data 29000) 1 11 0 30000) initial_cfg_tx initial_cfg_rx = Inr (tx', rx') \<and>
      (\<forall>n. bit (DCC (register_group tx' ! 11)) n \<longleftrightarrow> n = 3) \<and>
      (\<forall>j < kDaisyChainLength. j \<noteq> 11 \<longrightarrow> register_group tx' ! j = register_group initial_cfg_tx ! j))"
proof -
  let ?vs = "one_high_status 69"
  have above: "int (unat (max_v ?vs)) - int (unat (min_v ?vs)) > 100"
    by (simp add: one_high_status_def)
  have ic: "max_id ?vs div 3 mod 12 = 11" and b: "max_id ?vs mod 11 = 3"
    by (simp_all add: one_high_status_def)
  from BuildDischargeConfig_MaxOnly [OF initial_cfg_shape(1) initial_cfg_shape(3) initial_cfg_shape(4),
      of ?vs "set_cell (flat_cell_data 29000) 1 11 0 30000" initial_cfg_rx]
  obtain tx' rx' where
    "BuildDischargeConfig MaxOnly ?vs cfg_read_back
        (set_cell (flat_cell_data 29000) 1 11 0 30000) initial_cfg_tx initial_cfg_rx = Inr (tx', rx')"
    "\<forall>n. bit (DCC (register_group tx' ! 11)) n \<longleftrightarrow> n = 3"
    "\<forall>j < kDaisyChainLength. j \<noteq> 11 \<longrightarrow> register_group tx' ! j = register_group initial_cfg_tx ! j"
    unfolding ic b using above by (auto simp only: if_True)
  then show ?thesis
    using initial_cfg_shape(1,3,4) by blast
qed

lemma one_high_status_scanned:
  "scan_cell_data (set_cell (flat_cell_data 29000) 0 0 1 30000) = one_high_status 1"
  "scan_cell_data (set_cell (flat_cell_data 29000) 0 0 2 30000) = one_high_status 2"
  by (simp_all add: one_high_status_def scan_defs example_defs)

lemma stage_DCCx_bytes:
  assumes "length (data r) = 6"
  shows "\<exists>r'. stage_DCCx DCCx r = Inr r' \<and>
           data r' ! 4 = data r ! 4 OR ucast (DCCx AND 0xFF) \<and>
           data r' ! 5 = data r ! 5 OR ucast (drop_bit 8 DCCx AND 0xF) \<and>
           take 4 (data r') = take 4 (data r) \<and>
           length (data r') = 6 \<and>
           PEC r' = pec15 (data r')"
  using assms by (simp add: stage_DCCx_def Let_def PEC15Calc_array_u8)

lemma pec15_read_back: "pec15 [0xFE, 0, 0, 0, 0, 0] = 0x3732"
  by (simp add: pec15_def pec15_step_def crc15Table_def)

lemma ReadRegisterGroup_cfg_read_back:
  "ReadRegisterGroup bytes_u8 cfg_read_back rg =
     Some (False, rg\<lparr>register_group := received cfg_read_back\<rparr>)"
proof -
  have six: "\<forall>r \<in> set (received cfg_read_back). length (serialized bytes_u8 (data r)) = 6"
    by (simp add: cfg_read_back_def read_back_register_def serialized_bytes_u8)
  have "\<not> (\<exists>r \<in> set (received cfg_read_back). PEC r \<noteq> pec15 (serialized bytes_u8 (data r)))"
    by (simp add: cfg_read_back_def read_back_register_def serialized_bytes_u8 pec15_read_back)
  with PEC_check_iff [OF six] show ?thesis
    by (simp add: ReadRegisterGroup_def Let_def cfg_read_back_def)
qed


text \<open>
  C9 (as amended). The staging step of the two threshold policies ORs the mask onto
  the existing bits of bytes 4 and 5 of the configuration register (byte 4: the low
  8 bits, byte 5 bits 0 to 3: the high 4 bits), leaves bytes 0 to 3 unchanged and
  recomputes the PEC of the register. The max-only policy, when the maximum exceeds
  the minimum by more than 100, assigns its one-bit mask to bytes 4 and 5 of the
  register of device \<open>max_id / 3 mod 12\<close>, replacing their existing bits, leaves the
  other bytes of that register and the registers of all other devices unchanged and
  recomputes the PEC of that register; otherwise it changes nothing.
\<close>

theorem discharge_mask_staging:
  assumes len: "length (register_group slave_cfg_tx) = kDaisyChainLength"
    and tx_six: "six_data_bytes bytes_u8 (register_group slave_cfg_tx)"
    and rx_six: "six_data_bytes bytes_u8 (received spi)"
    and reg_six: "length (data cfg_register) = 6"
  shows "(\<exists>r'. stage_DCCx DCCx cfg_register = Inr r' \<and>
            data r' ! 4 = data cfg_register ! 4 OR ucast (DCCx AND 0xFF) \<and>
            data r' ! 5 = data cfg_register ! 5 OR ucast (drop_bit 8 DCCx AND 0xF) \<and>
            take 4 (data r') = take 4 (data cfg_register) \<and>
            length (data r') = 6 \<and>
            PEC r' = pec15 (data r')) \<and>
         (\<exists>tx' rx'.
            BuildDischargeConfig MaxOnly voltage_status spi cd slave_cfg_tx slave_cfg_rx = Inr (tx', rx') \<and>
            (if int (unat (max_v voltage_status)) - int (unat (min_v voltage_status)) > 100 then
               data (register_group tx' ! (max_id voltage_status div 3 mod 12)) =
                 (data (register_group slave_cfg_tx ! (max_id voltage_status div 3 mod 12)))
                   [4 := ucast (push_bit (max_id voltage_status mod 11) 1 AND 0xFF :: u16),
                    5 := ucast (drop_bit 8 (push_bit (max_id voltage_status mod 11) 1 :: u16) AND 0xF)] \<and>
               PEC (register_group tx' ! (max_id voltage_status div 3 mod 12)) =
                 pec15 (data (register_group tx' ! (max_id voltage_status div 3 mod 12))) \<and>
               length (register_group tx') = kDaisyChainLength \<and>
               (\<forall>j < kDaisyChainLength. j \<noteq> max_id voltage_status div 3 mod 12 \<longrightarrow>
                  register_group tx' ! j = register_group slave_cfg_tx ! j)
             else tx' = slave_cfg_tx))"
proof (rule conjI)
  show "\<exists>r'. stage_DCCx DCCx cfg_register = Inr r' \<and>
            data r' ! 4 = data cfg_register ! 4 OR ucast (DCCx AND 0xFF) \<and>
            data r' ! 5 = data cfg_register ! 5 OR ucast (drop_bit 8 DCCx AND 0xF) \<and>
            take 4 (data r') = take 4 (data cfg_register) \<and>
            length (data r') = 6 \<and>
            PEC r' = pec15 (data r')"
    by (rule stage_DCCx_bytes [OF reg_six])
next
  let ?regs = "register_group slave_cfg_tx"
  let ?ic = "max_id voltage_status div 3 mod 12"
  let ?b = "max_id voltage_status mod 11"
  have six: "\<forall>r \<in> set ?regs. length (data r) = 6"
    using tx_six by (simp add: six_data_bytes_def serialized_bytes_u8)
  have "\<forall>r \<in> set (received spi). length (serialized bytes_u8 (data r)) = 6"
    using rx_six by (simp add: six_data_bytes_def)
  from ReadRegisterGroup_returns [OF this, of slave_cfg_rx]
  obtain result rx' where rd: "ReadRegisterGroup bytes_u8 spi slave_cfg_rx = Some (result, rx')"
    by blast
  have len12: "length ?regs = 12"
    using len by (simp add: kDaisyChainLength_def)
  show "\<exists>tx' rx'.
            BuildDischargeConfig MaxOnly voltage_status spi cd slave_cfg_tx slave_cfg_rx = Inr (tx', rx') \<and>
            (if int (unat (max_v voltage_status)) - int (unat (min_v voltage_status)) > 100 then
               data (register_group tx' ! ?ic) =
                 (data (?regs ! ?ic))
                   [4 := ucast (push_bit ?b 1 AND 0xFF :: u16),
                    5 := ucast (drop_bit 8 (push_bit ?b 1 :: u16) AND 0xF)] \<and>
               PEC (register_group tx' ! ?ic) = pec15 (data (register_group tx' ! ?ic)) \<and>
               length (register_group tx') = kDaisyChainLength \<and>
               (\<forall>j < kDaisyChainLength. j \<noteq> ?ic \<longrightarrow> register_group tx' ! j = ?regs ! j)
             else tx' = slave_cfg_tx)"
  proof (cases "int (unat (max_v voltage_status)) - int (unat (min_v voltage_status)) > 100")
    case False
    then show ?thesis
      using rd by (simp add: BuildDischargeConfig_def stage_MaxOnly_below)
  next
    case True
    have ic: "?ic < length ?regs"
      using len12 by simp
    show ?thesis
      using rd stage_MaxOnly_above [OF True len12 six] True ic len
      by (simp add: BuildDischargeConfig_def)
  qed
qed

theorem discharge_mask_staging_witness:
  "length (register_group initial_cfg_tx) = kDaisyChainLength \<and>
   six_data_bytes bytes_u8 (register_group initial_cfg_tx) \<and>
   six_data_bytes bytes_u8 (received cfg_read_back) \<and>
   length (data \<lparr>data = [0xFE, 0, 0, 0, 0x02, 0 :: u8], PEC = 0xAC98\<rparr>) = 6 \<and>
   (\<exists>r'. stage_DCCx 0x04 \<lparr>data = [0xFE, 0, 0, 0, 0x02, 0], PEC = 0xAC98\<rparr> = Inr r' \<and>
         data r' ! 4 = 0x06 \<and> data r' ! 5 = 0) \<and>
   (\<exists>tx' rx'.
      BuildDischargeConfig MaxOnly (one_high_status 1) cfg_read_back
        (set_cell (flat_cell_data 29000) 0 0 1 30000) initial_cfg_tx initial_cfg_rx = Inr (tx', rx') \<and>
      data (register_group tx' ! 0) = [0xFE, 0, 0, 0, 0x02, 0])"
proof -
  let ?r = "\<lparr>data = [0xFE, 0, 0, 0, 0x02, 0 :: u8], PEC = 0xAC98\<rparr>"
  let ?vs = "one_high_status 1"
  have r6: "length (data ?r) = 6"
    by simp
  have above: "int (unat (max_v ?vs)) - int (unat (min_v ?vs)) > 100"
    by (simp add: one_high_status_def)
  have ic: "max_id ?vs div 3 mod 12 = 0" and b: "max_id ?vs mod 11 = 1"
    by (simp_all add: one_high_status_def)
  have d0: "data (register_group initial_cfg_tx ! 0) = [0xFE, 0, 0, 0, 0, 0]"
    by (simp add: initial_cfg_tx_def initial_cfg_register_def)
  note inst = discharge_mask_staging [OF initial_cfg_shape(1) initial_cfg_shape(3)
      initial_cfg_shape(4) r6, of "0x04" ?vs "set_cell (flat_cell_data 29000) 0 0 1 30000" initial_cfg_rx]
  from inst obtain r' where
    "stage_DCCx 0x04 ?r = Inr r'" "data r' ! 4 = data ?r ! 4 OR ucast (0x04 AND 0xFF :: u16)"
    "data r' ! 5 = data ?r ! 5 OR ucast (drop_bit 8 (0x04 :: u16) AND 0xF)"
    by blast
  then have first: "\<exists>r'. stage_DCCx 0x04 ?r = Inr r' \<and> data r' ! 4 = 0x06 \<and> data r' ! 5 = 0"
    by simp
  from inst obtain tx' rx' where
    "BuildDischargeConfig MaxOnly ?vs cfg_read_back
        (set_cell (flat_cell_data 29000) 0 0 1 30000) initial_cfg_tx initial_cfg_rx = Inr (tx', rx')"
    "data (register_group tx' ! 0) =
       (data (register_group initial_cfg_tx ! 0))
         [4 := ucast (push_bit 1 1 AND 0xFF :: u16), 5 := ucast (drop_bit 8 (push_bit 1 1 :: u16) AND 0xF)]"
    unfolding ic b using above by (auto simp only: if_True)
  then have second: "\<exists>tx' rx'.
      BuildDischargeConfig MaxOnly ?vs cfg_read_back
        (set_cell (flat_cell_data 29000) 0 0 1 30000) initial_cfg_tx initial_cfg_rx = Inr (tx', rx') \<and>
      data (register_group tx' ! 0) = [0xFE, 0, 0, 0, 0x02, 0]"
    by (simp add: d0)
  from first second r6 show ?thesis
    using initial_cfg_shape(1,3,4) by blast
qed

text \<open>
  C9 (as stated) fails under the max-only policy on a staged configuration the
  driver reaches by itself. From the configuration the constructor leaves, a first
  call with the maximum in the cell of identity 1 stages \<open>0x02\<close> in byte 4 of device 0.
  A second call with the maximum in the cell of identity 2 leaves byte 4 at \<open>0x04\<close>:
  the earlier bit is gone, where OR-ing the mask \<open>0x04\<close> onto the existing bits gives
  \<open>0x06\<close>. Both statuses are those the scan computes for such packs
  (\<open>one_high_status_scanned\<close>).
\<close>

theorem MaxOnly_replaces_staged_bits_counterexample:
  "staged_data 0
     (BuildDischargeConfig MaxOnly (one_high_status 1) cfg_read_back
        (set_cell (flat_cell_data 29000) 0 0 1 30000) initial_cfg_tx initial_cfg_rx)
     = Inr [0xFE, 0, 0, 0, 0x02, 0] \<and>
   staged_data 0
     (then_BuildDischargeConfig MaxOnly (one_high_status 2) cfg_read_back
        (set_cell (flat_cell_data 29000) 0 0 2 30000)
        (BuildDischargeConfig MaxOnly (one_high_status 1) cfg_read_back
           (set_cell (flat_cell_data 29000) 0 0 1 30000) initial_cfg_tx initial_cfg_rx))
     = Inr [0xFE, 0, 0, 0, 0x04, 0] \<and>
   DCC_ored_as_stated 0x04 [0xFE, 0, 0, 0, 0x02, 0] = [0xFE, 0, 0, 0, 0x06, 0] \<and>
   [0xFE, 0, 0, 0, 0x04, 0] \<noteq> DCC_ored_as_stated 0x04 [0xFE, 0, 0, 0, 0x02, 0]"
proof -
  let ?cd1 = "set_cell (flat_cell_data 29000) 0 0 1 30000"
  let ?cd2 = "set_cell (flat_cell_data 29000) 0 0 2 30000"
  let ?d1 = "[0xFE, 0, 0, 0, 0x02, 0 :: u8]"
  let ?d2 = "[0xFE, 0, 0, 0, 0x04, 0 :: u8]"
  let ?regs1 = "\<lparr>data = ?d1, PEC = pec15 ?d1\<rparr> # replicate 11 initial_cfg_register"
  let ?tx1 = "\<lparr>command = [0x00, 0x01, 0x3D, 0x6E], register_group = ?regs1\<rparr>"
  let ?rx = "initial_cfg_rx\<lparr>register_group := received cfg_read_back\<rparr>"
  have above: "int (unat (max_v (one_high_status i))) - int (unat (min_v (one_high_status i))) > 100" for i
    by (simp add: one_high_status_def)
  have shape0: "length (register_group initial_cfg_tx) = 12"
    "\<forall>r \<in> set (register_group initial_cfg_tx). length (data r) = 6"
    by (simp_all add: initial_cfg_tx_def initial_cfg_register_def)
  have shape1: "length ?regs1 = 12" "\<forall>r \<in> set ?regs1. length (data r) = 6"
    by (simp_all add: initial_cfg_register_def)
  have eleven: "replicate 11 x = [x, x, x, x, x, x, x, x, x, x, x]" for x :: "u8 LTC6811Register"
    by (simp add: numeral_eq_Suc)
  have first: "BuildDischargeConfig MaxOnly (one_high_status 1) cfg_read_back ?cd1
                 initial_cfg_tx initial_cfg_rx = Inr (?tx1, ?rx)"
    using stage_MaxOnly_above [OF above shape0, of 1]
    by (simp add: BuildDischargeConfig_def ReadRegisterGroup_cfg_read_back one_high_status_def
        initial_cfg_tx_def initial_cfg_register_def replicate_12 eleven)
  have second: "staged_data 0 (BuildDischargeConfig MaxOnly (one_high_status 2) cfg_read_back ?cd2 ?tx1 ?rx)
                  = Inr ?d2"
    using stage_MaxOnly_above [OF above, of ?regs1 2] shape1
    by (simp add: staged_data_def BuildDischargeConfig_def ReadRegisterGroup_cfg_read_back
        one_high_status_def)
  have a: "staged_data 0 (BuildDischargeConfig MaxOnly (one_high_status 1) cfg_read_back ?cd1
             initial_cfg_tx initial_cfg_rx) = Inr ?d1"
    unfolding first by (simp add: staged_data_def)
  have b: "staged_data 0
     (then_BuildDischargeConfig MaxOnly (one_high_status 2) cfg_read_back ?cd2
        (BuildDischargeConfig MaxOnly (one_high_status 1) cfg_read_back ?cd1 initial_cfg_tx initial_cfg_rx))
     = Inr ?d2"
    by (simp only: first then_BuildDischargeConfig_def sum.case prod.case second)
  have c: "DCC_ored_as_stated 0x04 ?d1 = [0xFE, 0, 0, 0, 0x06, 0]"
    by (simp add: DCC_ored_as_stated_def)
  from a b c show ?thesis
    by simp
qed


end
